theory Spec2Isabelle
  imports Complex_Main "HOL-Library.Monad_Syntax"
begin

section \<open>Machine integers and vector reads\<close>

text \<open>
  The C++ sources compute every loop counter and every vertex index in \<open>int\<close>, a 32-bit
  two's complement integer on the platforms the demos build for. Signed overflow is undefined
  behaviour in C++, and so is \<open>operator[]\<close> of \<open>std::vector\<close> outside the vector. Both are
  modelled as the value \<open>None\<close>: a function of the model returns \<open>Some\<close> result exactly
  when the run it describes has defined behaviour. Memory exhaustion is not modelled.
\<close>

definition INT_MAX :: int where
  "INT_MAX = 2147483647"

definition INT_MIN :: int where
  "INT_MIN = - 2147483648"

text \<open>The result of one \<open>int\<close> operation whose mathematical value is \<open>n\<close>.\<close>

definition int_op :: "int \<Rightarrow> int option" where
  "int_op n = (if INT_MIN \<le> n \<and> n \<le> INT_MAX then Some n else None)"

text \<open>
  \<open>xs[n]\<close> for an \<open>int\<close> index \<open>n\<close>: the index converts to \<open>size_t\<close>, so that a negative
  one is far beyond the end of the vector.
\<close>

definition subscript :: "'a list \<Rightarrow> int \<Rightarrow> 'a option" where
  "subscript xs n = (if 0 \<le> n \<and> n < int (length xs) then Some (xs ! nat n) else None)"

section \<open>Floating-point arithmetic as a parameter\<close>

text \<open>
  The type \<open>'f\<close> stands for \<open>float\<close>. Its arithmetic is left uninterpreted: the
  operations that the sources apply to floats are the fields of a record, which every function
  of the model takes as its first argument. The mixed expressions of \<open>generateSphere\<close>, which the
  compiler evaluates in \<open>double\<close> and rounds on assignment, are one field each:
  \<^item> \<open>sector_step n\<close> is \<open>2 * M_PI / n\<close> and \<open>stack_step n\<close> is \<open>M_PI / n\<close>, for an \<open>int\<close> \<open>n\<close>;
  \<^item> \<open>stack_angle i s\<close> is \<open>M_PI / 2 - i * s\<close> and \<open>sector_angle j s\<close> is \<open>j * s\<close>;
  \<^item> \<open>cosf\<close> and \<open>sinf\<close> are the C functions of these names, which \<open>generateSphere\<close> calls,
    and \<open>fcos\<close> and \<open>fsin\<close> are the \<open>cos\<close> and \<open>sin\<close> that \<open>main\<close> applies to a float;
  \<^item> \<open>flit q\<close> is the float written as the decimal literal \<open>q\<close>.
\<close>

record 'f float_ops =
  sector_step :: "int \<Rightarrow> 'f"
  stack_step :: "int \<Rightarrow> 'f"
  stack_angle :: "int \<Rightarrow> 'f \<Rightarrow> 'f"
  sector_angle :: "int \<Rightarrow> 'f \<Rightarrow> 'f"
  fadd :: "'f \<Rightarrow> 'f \<Rightarrow> 'f"
  fsub :: "'f \<Rightarrow> 'f \<Rightarrow> 'f"
  fmul :: "'f \<Rightarrow> 'f \<Rightarrow> 'f"
  fdiv :: "'f \<Rightarrow> 'f \<Rightarrow> 'f"
  cosf :: "'f \<Rightarrow> 'f"
  sinf :: "'f \<Rightarrow> 'f"
  fsin :: "'f \<Rightarrow> 'f"
  fcos :: "'f \<Rightarrow> 'f"
  flit :: "rat \<Rightarrow> 'f"

text \<open>The instance over the reals: floats without rounding.\<close>

definition ideal_ops :: "real float_ops" where
  "ideal_ops =
     \<lparr> sector_step = (\<lambda>n. 2 * pi / of_int n),
       stack_step = (\<lambda>n. pi / of_int n),
       stack_angle = (\<lambda>i s. pi / 2 - of_int i * s),
       sector_angle = (\<lambda>j s. of_int j * s),
       fadd = (+), fsub = (-), fmul = (*), fdiv = (/),
       cosf = cos, sinf = sin, fsin = sin, fcos = cos, flit = of_rat \<rparr>"


section \<open>The sphere generator\<close>

subsection \<open>The vertex grid\<close>

text \<open>
  The body of the inner loop of the first loop nest of \<open>generateSphere\<close>: the six floats
  pushed to \<open>tempVertices\<close> for sector \<open>j\<close> of a stack whose \<open>xy\<close> and \<open>z\<close> are given.
\<close>

definition vertex :: "'f float_ops \<Rightarrow> 'f \<Rightarrow> 'f \<Rightarrow> 'f \<Rightarrow> 'f \<Rightarrow> int \<Rightarrow> 'f list" where
  "vertex ops radius sectorStep xy z j =
     (let sectorAngle = sector_angle ops j sectorStep;
          x = fmul ops xy (cosf ops sectorAngle);
          y = fmul ops xy (sinf ops sectorAngle);
          nx = fdiv ops x radius;
          ny = fdiv ops y radius;
          nz = fdiv ops z radius
      in [x, y, z, nx, ny, nz])"

text \<open>\<open>for (int j = 0; j <= sectorCount; ++j)\<close>, entered with the counter at \<open>j\<close>.\<close>

function gen_sectors ::
  "'f float_ops \<Rightarrow> 'f \<Rightarrow> int \<Rightarrow> 'f \<Rightarrow> 'f \<Rightarrow> 'f \<Rightarrow> int \<Rightarrow> 'f list \<Rightarrow> 'f list option" where
  "gen_sectors ops radius sectorCount sectorStep xy z j tempVertices =
     (if j \<le> sectorCount then
        (case int_op (j + 1) of
           None \<Rightarrow> None
         | Some j' \<Rightarrow>
             gen_sectors ops radius sectorCount sectorStep xy z j'
               (tempVertices @ vertex ops radius sectorStep xy z j))
      else Some tempVertices)"
  by pat_completeness auto
termination
  by (relation "measure (\<lambda>(ops, radius, sectorCount, sectorStep, xy, z, j, tempVertices).
        nat (sectorCount + 1 - j))")
     (auto simp: int_op_def split: if_splits)

text \<open>\<open>for (int i = 0; i <= stackCount; ++i)\<close>, entered with the counter at \<open>i\<close>.\<close>

function gen_stacks ::
  "'f float_ops \<Rightarrow> 'f \<Rightarrow> int \<Rightarrow> int \<Rightarrow> 'f \<Rightarrow> 'f \<Rightarrow> int \<Rightarrow> 'f list \<Rightarrow> 'f list option" where
  "gen_stacks ops radius sectorCount stackCount sectorStep stackStep i tempVertices =
     (if i \<le> stackCount then
        (let stackAngle = stack_angle ops i stackStep;
             xy = fmul ops radius (cosf ops stackAngle);
             z = fmul ops radius (sinf ops stackAngle)
         in case gen_sectors ops radius sectorCount sectorStep xy z 0 tempVertices of
              None \<Rightarrow> None
            | Some tempVertices' \<Rightarrow>
                (case int_op (i + 1) of
                   None \<Rightarrow> None
                 | Some i' \<Rightarrow>
                     gen_stacks ops radius sectorCount stackCount sectorStep stackStep i'
                       tempVertices'))
      else Some tempVertices)"
  by pat_completeness auto
termination
  by (relation "measure (\<lambda>(ops, radius, sectorCount, stackCount, sectorStep, stackStep, i,
        tempVertices). nat (stackCount + 1 - i))")
     (auto simp: int_op_def split: if_splits)

subsection \<open>Triangulation\<close>

text \<open>
  The second loop nest reads \<open>tempVertices\<close> only through \<open>tempVertices[n]\<close>. The read is the
  parameter \<open>rd\<close> of the functions below: \<open>generateSphere\<close> passes \<open>subscript tempVertices\<close>, and
  passing \<open>Some\<close> instead makes the same loops return the indices they read, in order.

  \<open>for (int k = 0; k < 6; ++k) vertices.push_back(tempVertices[kv * 6 + k])\<close>, entered with the
  counter at \<open>k\<close>.
\<close>

function copy_vertex :: "(int \<Rightarrow> 'a option) \<Rightarrow> int \<Rightarrow> int \<Rightarrow> 'a list \<Rightarrow> 'a list option" where
  "copy_vertex rd kv k vertices =
     (if k < 6 then
        do { a \<leftarrow> int_op (kv * 6);
             n \<leftarrow> int_op (a + k);
             x \<leftarrow> rd n;
             k' \<leftarrow> int_op (k + 1);
             copy_vertex rd kv k' (vertices @ [x]) }
      else Some vertices)"
  by pat_completeness auto
termination
  by (relation "measure (\<lambda>(rd, kv, k, vertices). nat (6 - k))")
     (auto simp: int_op_def split: if_splits)

text \<open>The three copy loops that emit one triangle.\<close>

definition triangle ::
  "(int \<Rightarrow> 'a option) \<Rightarrow> int \<Rightarrow> int \<Rightarrow> int \<Rightarrow> 'a list \<Rightarrow> 'a list option" where
  "triangle rd ka kb kc vertices =
     do { v1 \<leftarrow> copy_vertex rd ka 0 vertices;
          v2 \<leftarrow> copy_vertex rd kb 0 v1;
          copy_vertex rd kc 0 v2 }"

text \<open>The body of the inner loop of the second loop nest, for the cell \<open>(i, j)\<close>.\<close>

definition quad ::
  "(int \<Rightarrow> 'a option) \<Rightarrow> int \<Rightarrow> int \<Rightarrow> int \<Rightarrow> int \<Rightarrow> 'a list \<Rightarrow> 'a list option" where
  "quad rd sectorCount stackCount i j vertices =
     do { w \<leftarrow> int_op (sectorCount + 1);
          a \<leftarrow> int_op (i * w);
          k1 \<leftarrow> int_op (a + j);
          k2 \<leftarrow> int_op (k1 + 1);
          i1 \<leftarrow> int_op (i + 1);
          b \<leftarrow> int_op (i1 * w);
          k3 \<leftarrow> int_op (b + j);
          k4 \<leftarrow> int_op (k3 + 1);
          v1 \<leftarrow> (if i \<noteq> 0 then triangle rd k1 k2 k3 vertices else Some vertices);
          s \<leftarrow> int_op (stackCount - 1);
          (if i \<noteq> s then triangle rd k2 k4 k3 v1 else Some v1) }"

text \<open>\<open>for (int j = 0; j < sectorCount; ++j)\<close>, entered with the counter at \<open>j\<close>.\<close>

function tri_sectors ::
  "(int \<Rightarrow> 'a option) \<Rightarrow> int \<Rightarrow> int \<Rightarrow> int \<Rightarrow> int \<Rightarrow> 'a list \<Rightarrow> 'a list option" where
  "tri_sectors rd sectorCount stackCount i j vertices =
     (if j < sectorCount then
        (case quad rd sectorCount stackCount i j vertices of
           None \<Rightarrow> None
         | Some vertices' \<Rightarrow>
             (case int_op (j + 1) of
                None \<Rightarrow> None
              | Some j' \<Rightarrow> tri_sectors rd sectorCount stackCount i j' vertices'))
      else Some vertices)"
  by pat_completeness auto
termination
  by (relation "measure (\<lambda>(rd, sectorCount, stackCount, i, j, vertices). nat (sectorCount - j))")
     (auto simp: int_op_def split: if_splits)

text \<open>\<open>for (int i = 0; i < stackCount; ++i)\<close>, entered with the counter at \<open>i\<close>.\<close>

function tri_stacks ::
  "(int \<Rightarrow> 'a option) \<Rightarrow> int \<Rightarrow> int \<Rightarrow> int \<Rightarrow> 'a list \<Rightarrow> 'a list option" where
  "tri_stacks rd sectorCount stackCount i vertices =
     (if i < stackCount then
        (case tri_sectors rd sectorCount stackCount i 0 vertices of
           None \<Rightarrow> None
         | Some vertices' \<Rightarrow>
             (case int_op (i + 1) of
                None \<Rightarrow> None
              | Some i' \<Rightarrow> tri_stacks rd sectorCount stackCount i' vertices'))
      else Some vertices)"
  by pat_completeness auto
termination
  by (relation "measure (\<lambda>(rd, sectorCount, stackCount, i, vertices). nat (stackCount - i))")
     (auto simp: int_op_def split: if_splits)

subsection \<open>The function\<close>

text \<open>
  \<open>void generateSphere(std::vector<float>& vertices, float radius, int sectorCount,
  int stackCount)\<close>: the model takes the contents of \<open>vertices\<close> before the call and returns
  its contents after it.
\<close>

definition tempVertices_of :: "'f float_ops \<Rightarrow> 'f \<Rightarrow> int \<Rightarrow> int \<Rightarrow> 'f list option" where
  "tempVertices_of ops radius sectorCount stackCount =
     gen_stacks ops radius sectorCount stackCount
       (sector_step ops sectorCount) (stack_step ops stackCount) 0 []"

definition generateSphere ::
  "'f float_ops \<Rightarrow> 'f list \<Rightarrow> 'f \<Rightarrow> int \<Rightarrow> int \<Rightarrow> 'f list option" where
  "generateSphere ops vertices radius sectorCount stackCount =
     do { tempVertices \<leftarrow> tempVertices_of ops radius sectorCount stackCount;
          tri_stacks (subscript tempVertices) sectorCount stackCount 0 vertices }"

text \<open>The indices of \<open>tempVertices\<close> that the triangulation reads, in the order of the reads.\<close>

definition read_indices :: "int \<Rightarrow> int \<Rightarrow> int list option" where
  "read_indices sectorCount stackCount = tri_stacks Some sectorCount stackCount 0 []"

subsection \<open>The vertex grid as the specification words it\<close>

text \<open>
  Section 4.1 of the specification: for stack \<open>i\<close> the stack angle is \<open>\<pi>/2 - i (\<pi>/stackCount)\<close>,
  for sector \<open>j\<close> the sector angle is \<open>j (2\<pi>/sectorCount)\<close>; the position is
  \<open>xy = r cos(stackAngle)\<close>, \<open>z = r sin(stackAngle)\<close>, \<open>x = xy cos(sectorAngle)\<close>,
  \<open>y = xy sin(sectorAngle)\<close>, and the normal is the position divided by the radius. The grid
  has \<open>stackCount + 1\<close> rows of \<open>sectorCount + 1\<close> vertices.
\<close>

definition spec_vertex :: "'f float_ops \<Rightarrow> 'f \<Rightarrow> int \<Rightarrow> int \<Rightarrow> int \<Rightarrow> int \<Rightarrow> 'f list" where
  "spec_vertex ops radius sectorCount stackCount i j =
     (let stackAngle = stack_angle ops i (stack_step ops stackCount);
          sectorAngle = sector_angle ops j (sector_step ops sectorCount);
          xy = fmul ops radius (cosf ops stackAngle);
          z = fmul ops radius (sinf ops stackAngle);
          x = fmul ops xy (cosf ops sectorAngle);
          y = fmul ops xy (sinf ops sectorAngle)
      in [x, y, z, fdiv ops x radius, fdiv ops y radius, fdiv ops z radius])"

definition spec_grid :: "'f float_ops \<Rightarrow> 'f \<Rightarrow> int \<Rightarrow> int \<Rightarrow> 'f list" where
  "spec_grid ops radius sectorCount stackCount =
     concat (map (\<lambda>i. concat (map (spec_vertex ops radius sectorCount stackCount i)
       [0..sectorCount])) [0..stackCount])"

subsection \<open>The triangulation as the specification words it\<close>

text \<open>
  Section 4.1 of the specification: for each grid cell \<open>(i, j)\<close> with corners
  \<open>k1 = i (sectorCount + 1) + j\<close>, \<open>k2 = k1 + 1\<close>, \<open>k3 = (i + 1) (sectorCount + 1) + j\<close> and
  \<open>k4 = k3 + 1\<close>, emit triangle \<open>(k1, k2, k3)\<close> unless \<open>i = 0\<close>, and emit triangle
  \<open>(k2, k4, k3)\<close> unless \<open>i = stackCount - 1\<close>.
\<close>

definition spec_cell :: "int \<Rightarrow> int \<Rightarrow> int \<Rightarrow> int \<Rightarrow> (int \<times> int \<times> int) list" where
  "spec_cell sectorCount stackCount i j =
     (let k1 = i * (sectorCount + 1) + j;
          k2 = k1 + 1;
          k3 = (i + 1) * (sectorCount + 1) + j;
          k4 = k3 + 1
      in (if i = 0 then [] else [(k1, k2, k3)]) @
         (if i = stackCount - 1 then [] else [(k2, k4, k3)]))"

text \<open>The cells in the order of the loops: stacks outside, sectors inside.\<close>

definition spec_triangles :: "int \<Rightarrow> int \<Rightarrow> (int \<times> int \<times> int) list" where
  "spec_triangles sectorCount stackCount =
     concat (map (\<lambda>i. concat (map (spec_cell sectorCount stackCount i) [0..sectorCount - 1]))
       [0..stackCount - 1])"

text \<open>
  Vertex \<open>k\<close> of the grid is the six floats of \<open>tempVertices\<close> from index \<open>6 k\<close> on, and a
  triangle is emitted as its three vertices in turn.
\<close>

definition grid_vertex :: "'a list \<Rightarrow> int \<Rightarrow> 'a list" where
  "grid_vertex tempVertices k = take 6 (drop (6 * nat k) tempVertices)"

fun emit_triangle :: "'a list \<Rightarrow> int \<times> int \<times> int \<Rightarrow> 'a list" where
  "emit_triangle tempVertices (ka, kb, kc) =
     grid_vertex tempVertices ka @ grid_vertex tempVertices kb @ grid_vertex tempVertices kc"

text \<open>The indices of \<open>tempVertices\<close> that emitting a vertex, a triangle, a cell, a row reads.\<close>

definition vertex_reads :: "int \<Rightarrow> int list" where
  "vertex_reads kv = [kv * 6..kv * 6 + 5]"

fun triangle_reads :: "int \<times> int \<times> int \<Rightarrow> int list" where
  "triangle_reads (ka, kb, kc) = vertex_reads ka @ vertex_reads kb @ vertex_reads kc"

definition cell_reads :: "int \<Rightarrow> int \<Rightarrow> int \<Rightarrow> int \<Rightarrow> int list" where
  "cell_reads sectorCount stackCount i j =
     concat (map triangle_reads (spec_cell sectorCount stackCount i j))"

definition row_reads :: "int \<Rightarrow> int \<Rightarrow> int \<Rightarrow> int \<Rightarrow> int list" where
  "row_reads sectorCount stackCount i j =
     concat (map (cell_reads sectorCount stackCount i) [j..sectorCount - 1])"

definition stack_reads :: "int \<Rightarrow> int \<Rightarrow> int \<Rightarrow> int list" where
  "stack_reads sectorCount stackCount i =
     concat (map (\<lambda>i. row_reads sectorCount stackCount i 0) [i..stackCount - 1])"

text \<open>The floats that one pass of the outer loop of the first loop nest pushes.\<close>

definition stack_row :: "'f float_ops \<Rightarrow> 'f \<Rightarrow> int \<Rightarrow> 'f \<Rightarrow> 'f \<Rightarrow> int \<Rightarrow> 'f list" where
  "stack_row ops radius sectorCount sectorStep stackStep i =
     (let stackAngle = stack_angle ops i stackStep;
          xy = fmul ops radius (cosf ops stackAngle);
          z = fmul ops radius (sinf ops stackAngle)
      in concat (map (vertex ops radius sectorStep xy z) [0..sectorCount]))"

text \<open>
  The size of the vertex grid, in floats, is a value of type \<open>int\<close>: every index that the
  triangulation computes is below it.
\<close>

definition fits :: "int \<Rightarrow> int \<Rightarrow> bool" where
  "fits sectorCount stackCount \<longleftrightarrow> 6 * (stackCount + 1) * (sectorCount + 1) \<le> INT_MAX"

subsection \<open>The emitted vertices\<close>



fun emitted_vertex :: "'f float_ops \<Rightarrow> 'f \<Rightarrow> int \<Rightarrow> int \<Rightarrow> int \<times> int \<Rightarrow> 'f list" where
  "emitted_vertex ops radius sectorCount stackCount (i, j) =
     spec_vertex ops radius sectorCount stackCount i j"


section \<open>The frame driver of the three-window program\<close>

text \<open>
  The C++ program that follows the two shaders in \<open>2.2.flat_lighting.vs\<close> opens three windows
  and renders the same scene in each. The model keeps what its render loop reads and writes:
  the close flag that GLFW holds for each window, the globals \<open>lightPos\<close>, \<open>deltaTime\<close> and
  \<open>lastFrame\<close>, and the calls that reach the graphics library, in order. The camera and the
  matrices come from headers that are not part of the sources; their calls are left out.
\<close>

text \<open>\<open>glm::vec3\<close>.\<close>

record 'f vec3 =
  vx :: 'f
  vy :: 'f
  vz :: 'f

text \<open>
  The calls of one window \<open>i\<close>: \<open>SetVec3 i name v\<close> is \<open>setVec3(name, v)\<close> on its lighting shader,
  \<open>DrawSphere i n\<close> is \<open>glDrawArrays(GL_TRIANGLES, 0, n)\<close> on its sphere, \<open>CubeTranslate i v\<close>
  is \<open>glm::translate(model, v)\<close> for its light cube.
\<close>

datatype 'f gl_call =
    MakeContextCurrent nat
  | ClearScreen nat
  | SetVec3 nat string "'f vec3"
  | DrawSphere nat nat
  | CubeTranslate nat "'f vec3"
  | DrawCube nat
  | SwapBuffers nat
  | PollEvents

record 'f driver =
  should_close :: "nat \<Rightarrow> bool"
  lightPos :: "'f vec3"
  deltaTime :: 'f
  lastFrame :: 'f
  gl_calls :: "'f gl_call list"

text \<open>
  What the environment does during one pass of the loop: the two readings of \<open>glfwGetTime\<close>
  converted to \<open>float\<close>, whether \<open>glfwGetKey\<close> reports ESCAPE as pressed in window \<open>i\<close> when
  \<open>processInput\<close> asks, and whether \<open>glfwPollEvents\<close> delivers a close request for window \<open>i\<close>.
\<close>

record 'f tick_env =
  frame_time :: 'f
  light_time :: 'f
  escape_pressed :: "nat \<Rightarrow> bool"
  close_requested :: "nat \<Rightarrow> bool"

text \<open>The globals as initialised, with all three windows open.\<close>

definition init_driver :: "'f float_ops \<Rightarrow> 'f driver" where
  "init_driver ops =
     \<lparr> should_close = (\<lambda>i. False),
       lightPos = \<lparr> vx = flit ops 0, vy = flit ops 0, vz = flit ops (7 / 2) \<rparr>,
       deltaTime = flit ops 0,
       lastFrame = flit ops 0,
       gl_calls = [] \<rparr>"

text \<open>
  The per-frame time logic and the update of the light position, lines 312 to 323. The
  render loop of \<open>basic_lighting_specular.cpp\<close> has the same statements, at lines 179 to 181
  and 192 to 201.
\<close>

definition update_light :: "'f float_ops \<Rightarrow> 'f tick_env \<Rightarrow> 'f driver \<Rightarrow> 'f driver" where
  "update_light ops env s =
     (let currentFrame = frame_time env;
          lightRadius = flit ops 2;
          lightSpeed = flit ops 1;
          angle = fmul ops (light_time env) lightSpeed;
          lightCenter = \<lparr> vx = flit ops 0, vy = flit ops 0, vz = flit ops (7 / 2) \<rparr>
      in s \<lparr> deltaTime := fsub ops currentFrame (lastFrame s),
             lastFrame := currentFrame,
             lightPos := (lightPos s)
               \<lparr> vx := fadd ops (vx lightCenter) (fmul ops (fsin ops angle) lightRadius),
                 vy := fadd ops (vy lightCenter) (fmul ops (fcos ops angle) lightRadius) \<rparr> \<rparr>)"

text \<open>\<open>processInput\<close>, without the camera keys.\<close>

definition processInput :: "'f tick_env \<Rightarrow> nat \<Rightarrow> 'f driver \<Rightarrow> 'f driver" where
  "processInput env i s =
     (if escape_pressed env i then s \<lparr> should_close := (should_close s) (i := True) \<rparr> else s)"

text \<open>The body of the loop over the windows for a window that is not skipped.\<close>

definition render_window ::
  "'f float_ops \<Rightarrow> 'f tick_env \<Rightarrow> nat \<Rightarrow> nat \<Rightarrow> 'f driver \<Rightarrow> 'f driver" where
  "render_window ops env count i s =
     (let s1 = processInput env i (s \<lparr> gl_calls := gl_calls s @ [MakeContextCurrent i] \<rparr>)
      in s1 \<lparr> gl_calls := gl_calls s1 @
           [ClearScreen i,
            SetVec3 i ''objectColor''
              \<lparr> vx = flit ops 1, vy = flit ops (1 / 2), vz = flit ops (31 / 100) \<rparr>,
            SetVec3 i ''lightColor''
              \<lparr> vx = flit ops (6 / 5), vy = flit ops (6 / 5), vz = flit ops (6 / 5) \<rparr>,
            SetVec3 i ''lightPos'' (lightPos s1),
            DrawSphere i count,
            CubeTranslate i (lightPos s1),
            DrawCube i,
            SwapBuffers i] \<rparr>)"

text \<open>\<open>for (int i = 0; i < 3; i++)\<close> with its skip, entered with the counter at \<open>i\<close>.\<close>

function render_windows ::
  "'f float_ops \<Rightarrow> 'f tick_env \<Rightarrow> nat \<Rightarrow> nat \<Rightarrow> 'f driver \<Rightarrow> 'f driver" where
  "render_windows ops env count i s =
     (if i < 3 then
        (if should_close s i then render_windows ops env count (i + 1) s
         else render_windows ops env count (i + 1) (render_window ops env count i s))
      else s)"
  by pat_completeness auto
termination
  by (relation "measure (\<lambda>(ops, env, count, i, s). 3 - i)") auto

text \<open>One pass of that loop: the skip or the body.\<close>

definition window_step ::
  "'f float_ops \<Rightarrow> 'f tick_env \<Rightarrow> nat \<Rightarrow> nat \<Rightarrow> 'f driver \<Rightarrow> 'f driver" where
  "window_step ops env count i s =
     (if should_close s i then s else render_window ops env count i s)"

text \<open>\<open>glfwPollEvents\<close>.\<close>

definition poll_events :: "'f tick_env \<Rightarrow> 'f driver \<Rightarrow> 'f driver" where
  "poll_events env s =
     s \<lparr> should_close := (\<lambda>i. should_close s i \<or> close_requested env i),
         gl_calls := gl_calls s @ [PollEvents] \<rparr>"

text \<open>One pass of the render loop.\<close>

definition tick :: "'f float_ops \<Rightarrow> 'f tick_env \<Rightarrow> nat \<Rightarrow> 'f driver \<Rightarrow> 'f driver" where
  "tick ops env count s =
     poll_events env (render_windows ops env count 0 (update_light ops env s))"

text \<open>The condition of the \<open>while\<close>, line 309.\<close>

definition loop_condition :: "'f driver \<Rightarrow> bool" where
  "loop_condition s \<longleftrightarrow> \<not> should_close s 0 \<and> \<not> should_close s 1 \<and> \<not> should_close s 2"

text \<open>
  The render loop, run against the behaviour of the environment in successive passes. The
  result is \<open>None\<close> when the loop is still running after the last pass described.
\<close>

fun render_loop ::
  "'f float_ops \<Rightarrow> nat \<Rightarrow> 'f driver \<Rightarrow> 'f tick_env list \<Rightarrow> 'f driver option" where
  "render_loop ops count s [] = (if loop_condition s then None else Some s)"
| "render_loop ops count s (env # envs) =
     (if loop_condition s then render_loop ops count (tick ops env count s) envs else Some s)"

text \<open>The \<open>lightPos\<close> uniforms set, and the windows whose sphere is drawn, in a list of calls.\<close>

fun lightPos_uniforms :: "'f gl_call list \<Rightarrow> (nat \<times> 'f vec3) list" where
  "lightPos_uniforms [] = []"
| "lightPos_uniforms (SetVec3 i name v # cs) =
     (if name = ''lightPos'' then [(i, v)] else []) @ lightPos_uniforms cs"
| "lightPos_uniforms (c # cs) = lightPos_uniforms cs"

fun drawn_windows :: "'f gl_call list \<Rightarrow> nat list" where
  "drawn_windows [] = []"
| "drawn_windows (DrawSphere i n # cs) = i # drawn_windows cs"
| "drawn_windows (c # cs) = drawn_windows cs"

text \<open>A pass in which ESCAPE is down in window 0 and nothing else happens.\<close>

definition escape_in_first :: "real tick_env" where
  "escape_in_first =
     \<lparr> frame_time = 0, light_time = 0,
       escape_pressed = (\<lambda>i. i = 0), close_requested = (\<lambda>i. False) \<rparr>"

text \<open>A pass in which \<open>glfwGetTime\<close> reads \<open>\<pi>/2\<close> and nothing else happens.\<close>

definition quarter_turn :: "real tick_env" where
  "quarter_turn =
     \<lparr> frame_time = pi / 2, light_time = pi / 2,
       escape_pressed = (\<lambda>i. False), close_requested = (\<lambda>i. False) \<rparr>"

section \<open>Start-up and shutdown of the single-window program\<close>

text \<open>
  \<open>main\<close> of \<open>basic_lighting_specular.cpp\<close>, as the calls by which it acquires and releases
  resources and its return value. \<open>window_created\<close> says whether \<open>glfwCreateWindow\<close> returns
  a window and \<open>glad_loaded\<close> whether \<open>gladLoadGLLoader\<close> succeeds. The list of booleans gives,
  for each time that the condition of the render loop is tested, whether the close flag of the
  window is set at that test; \<open>RenderFrame n\<close> is one pass, which draws \<open>n\<close> vertices of the
  sphere.
\<close>

datatype gl_object = SphereVAO | VBO | LightCubeVAO | LightVBO

datatype api_call =
    GlfwInit
  | GlfwCreateWindow
  | GlfwTerminate
  | GladLoadGLLoader
  | CreateShader string string
  | GlGenVertexArrays gl_object
  | GlGenBuffers gl_object
  | GlBufferData gl_object nat
  | RenderFrame nat
  | GlDeleteVertexArrays gl_object
  | GlDeleteBuffers gl_object

record startup =
  window_created :: bool
  glad_loaded :: bool

text \<open>
  \<open>while (!glfwWindowShouldClose(window))\<close>: the number of passes, or \<open>None\<close> when the loop is
  still running after the last test described. The flag is tested before the first pass, so
  that a flag found set at the first test leaves the loop with no pass made.
\<close>

fun frames_rendered :: "bool list \<Rightarrow> nat option" where
  "frames_rendered [] = None"
| "frames_rendered (close_flag # rest) =
     (if close_flag then Some 0 else map_option Suc (frames_rendered rest))"

definition main :: "'f float_ops \<Rightarrow> startup \<Rightarrow> bool list \<Rightarrow> (api_call list \<times> int) option" where
  "main ops env frames =
     (if \<not> window_created env then
        Some ([GlfwInit, GlfwCreateWindow, GlfwTerminate], - 1)
      else if \<not> glad_loaded env then
        Some ([GlfwInit, GlfwCreateWindow, GladLoadGLLoader], - 1)
      else
        do { sphereVertices \<leftarrow> generateSphere ops [] (flit ops (1 / 2)) 24 12;
             n \<leftarrow> frames_rendered frames;
             Some ([GlfwInit, GlfwCreateWindow, GladLoadGLLoader,
                    CreateShader ''2.2.flat_lighting.vs'' ''2.2.flat_lighting.fs'',
                    CreateShader ''2.2.light_cube.vs'' ''2.2.light_cube.fs'',
                    GlGenVertexArrays SphereVAO, GlGenBuffers VBO,
                    GlBufferData VBO (length sphereVertices),
                    GlGenVertexArrays LightCubeVAO, GlGenBuffers LightVBO,
                    GlBufferData LightVBO 216] @
                   replicate n (RenderFrame (length sphereVertices div 6)) @
                   [GlDeleteVertexArrays SphereVAO, GlDeleteVertexArrays LightCubeVAO,
                    GlDeleteBuffers VBO, GlDeleteBuffers LightVBO, GlfwTerminate],
                   0) })"

section \<open>Properties of the sphere generator\<close>


declare gen_sectors.simps [simp del] gen_stacks.simps [simp del] copy_vertex.simps [simp del]
  tri_sectors.simps [simp del] tri_stacks.simps [simp del] render_windows.simps [simp del]

lemma int_op_Some: "INT_MIN \<le> n \<Longrightarrow> n \<le> INT_MAX \<Longrightarrow> int_op n = Some n"
  by (simp add: int_op_def)

lemma int_op_nonneg: "0 \<le> n \<Longrightarrow> n \<le> INT_MAX \<Longrightarrow> int_op n = Some n"
  by (simp add: int_op_def INT_MIN_def)

lemma int_op_eq_Some: "int_op n = Some m \<longleftrightarrow> m = n \<and> INT_MIN \<le> n \<and> n \<le> INT_MAX"
  by (auto simp: int_op_def)

lemma length_vertex: "length (vertex ops radius sectorStep xy z j) = 6"
  by (simp add: vertex_def Let_def)

lemma gen_sectors_eq:
  "0 \<le> j \<Longrightarrow> sectorCount < INT_MAX \<Longrightarrow>
   gen_sectors ops radius sectorCount sectorStep xy z j tempVertices =
     Some (tempVertices @ concat (map (vertex ops radius sectorStep xy z) [j..sectorCount]))"
proof (induction ops radius sectorCount sectorStep xy z j tempVertices rule: gen_sectors.induct)
  case (1 ops radius sectorCount sectorStep xy z j tempVertices)
  show ?case
  proof (cases "j \<le> sectorCount")
    case True
    with "1.prems" have op: "int_op (j + 1) = Some (j + 1)"
      by (simp add: int_op_nonneg)
    from True "1.prems" op
    have "gen_sectors ops radius sectorCount sectorStep xy z (j + 1)
            (tempVertices @ vertex ops radius sectorStep xy z j) =
          Some ((tempVertices @ vertex ops radius sectorStep xy z j) @
            concat (map (vertex ops radius sectorStep xy z) [j + 1..sectorCount]))"
      by (intro "1.IH") simp_all
    with True op show ?thesis
      by (subst gen_sectors.simps) (simp add: upto_rec1 [of j sectorCount])
  next
    case False
    then show ?thesis
      by (subst gen_sectors.simps) simp
  qed
qed

lemma gen_stacks_eq:
  "0 \<le> i \<Longrightarrow> sectorCount < INT_MAX \<Longrightarrow> stackCount < INT_MAX \<Longrightarrow>
   gen_stacks ops radius sectorCount stackCount sectorStep stackStep i tempVertices =
     Some (tempVertices @
       concat (map (stack_row ops radius sectorCount sectorStep stackStep) [i..stackCount]))"
proof (induction ops radius sectorCount stackCount sectorStep stackStep i tempVertices
    rule: gen_stacks.induct)
  case (1 ops radius sectorCount stackCount sectorStep stackStep i tempVertices)
  show ?case
  proof (cases "i \<le> stackCount")
    case True
    define xy where "xy = fmul ops radius (cosf ops (stack_angle ops i stackStep))"
    define z where "z = fmul ops radius (sinf ops (stack_angle ops i stackStep))"
    define tv where "tv = tempVertices @ stack_row ops radius sectorCount sectorStep stackStep i"
    have row: "gen_sectors ops radius sectorCount sectorStep xy z 0 tempVertices = Some tv"
      using "1.prems" by (simp add: gen_sectors_eq tv_def stack_row_def xy_def z_def Let_def)
    from True "1.prems" have op: "int_op (i + 1) = Some (i + 1)"
      by (simp add: int_op_nonneg)
    have "gen_stacks ops radius sectorCount stackCount sectorStep stackStep (i + 1) tv =
          Some (tv @ concat (map (stack_row ops radius sectorCount sectorStep stackStep)
            [i + 1..stackCount]))"
      using "1.prems" by (intro "1.IH" [OF True refl xy_def z_def row op]) simp_all
    with True row op show ?thesis
      by (subst gen_stacks.simps)
         (simp add: upto_rec1 [of i stackCount] xy_def z_def tv_def)
  next
    case False
    then show ?thesis
      by (subst gen_stacks.simps) simp
  qed
qed

lemma length_concat_const:
  "(\<And>x. x \<in> set xs \<Longrightarrow> length (f x) = c) \<Longrightarrow> length (concat (map f xs)) = length xs * c"
  by (induction xs) simp_all

lemma length_upto: "length [i..j] = nat (j - i + 1)"
  by simp

lemma length_stack_row:
  "length (stack_row ops radius sectorCount sectorStep stackStep i) = 6 * nat (sectorCount + 1)"
  by (simp add: stack_row_def Let_def length_concat_const [where c = 6] length_vertex)

lemma tempVertices_of_eq:
  "sectorCount < INT_MAX \<Longrightarrow> stackCount < INT_MAX \<Longrightarrow>
   tempVertices_of ops radius sectorCount stackCount =
     Some (concat (map (stack_row ops radius sectorCount (sector_step ops sectorCount)
       (stack_step ops stackCount)) [0..stackCount]))"
  by (simp add: tempVertices_of_def gen_stacks_eq)

lemma length_tempVertices:
  assumes "tempVertices_of ops radius sectorCount stackCount = Some tv"
    and "sectorCount < INT_MAX" and "stackCount < INT_MAX"
  shows "length tv = 6 * nat (stackCount + 1) * nat (sectorCount + 1)"
proof -
  from assms have "tv = concat (map (stack_row ops radius sectorCount (sector_step ops sectorCount)
       (stack_step ops stackCount)) [0..stackCount])"
    by (simp add: tempVertices_of_eq)
  then show ?thesis
    by (simp add: length_concat_const [where c = "6 * nat (sectorCount + 1)"] length_stack_row)
qed

lemma copy_vertex_eq:
  "0 \<le> k \<Longrightarrow> k \<le> 6 \<Longrightarrow> 0 \<le> kv \<Longrightarrow> kv * 6 + 5 \<le> INT_MAX \<Longrightarrow>
   (\<And>n. kv * 6 + k \<le> n \<Longrightarrow> n \<le> kv * 6 + 5 \<Longrightarrow> rd n = Some (g n)) \<Longrightarrow>
   copy_vertex rd kv k vs = Some (vs @ map g [kv * 6 + k..kv * 6 + 5])"
proof (induction rd kv k vs rule: copy_vertex.induct)
  case (1 rd kv k vertices)
  show ?case
  proof (cases "k < 6")
    case True
    from "1.prems" have a: "int_op (kv * 6) = Some (kv * 6)"
      by (simp add: int_op_nonneg)
    from True "1.prems" have n: "int_op (kv * 6 + k) = Some (kv * 6 + k)"
      by (simp add: int_op_nonneg)
    from True "1.prems" have x: "rd (kv * 6 + k) = Some (g (kv * 6 + k))"
      by simp
    from True "1.prems" have k': "int_op (k + 1) = Some (k + 1)"
      by (simp add: int_op_nonneg INT_MAX_def)
    have "copy_vertex rd kv (k + 1) (vertices @ [g (kv * 6 + k)]) =
          Some ((vertices @ [g (kv * 6 + k)]) @ map g [kv * 6 + (k + 1)..kv * 6 + 5])"
      using True "1.prems" by (intro "1.IH" [OF True a n x k']) simp_all
    with True a n x k' show ?thesis
      by (subst copy_vertex.simps) (simp add: upto_rec1 [of "kv * 6 + k"] add.assoc)
  next
    case False
    with "1.prems" show ?thesis
      by (subst copy_vertex.simps) simp
  qed
qed

lemma copy_vertex_0:
  "0 \<le> kv \<Longrightarrow> kv * 6 + 5 \<le> INT_MAX \<Longrightarrow>
   (\<And>n. n \<in> set (vertex_reads kv) \<Longrightarrow> rd n = Some (g n)) \<Longrightarrow>
   copy_vertex rd kv 0 vs = Some (vs @ map g (vertex_reads kv))"
  using copy_vertex_eq [of 0 kv rd g vs] by (simp add: vertex_reads_def)

lemma triangle_eq:
  assumes "0 \<le> ka" "ka * 6 + 5 \<le> INT_MAX" "0 \<le> kb" "kb * 6 + 5 \<le> INT_MAX"
    "0 \<le> kc" "kc * 6 + 5 \<le> INT_MAX"
    and "\<And>n. n \<in> set (triangle_reads (ka, kb, kc)) \<Longrightarrow> rd n = Some (g n)"
  shows "triangle rd ka kb kc vs = Some (vs @ map g (triangle_reads (ka, kb, kc)))"
  using assms by (simp add: triangle_def copy_vertex_0)

lemma cell_arith:
  fixes i j sectorCount stackCount :: int
  assumes "0 \<le> i" "i < stackCount" "0 \<le> j" "j < sectorCount"
  shows "0 \<le> i * sectorCount" and "i * sectorCount + sectorCount \<le> stackCount * sectorCount"
proof -
  from assms show "0 \<le> i * sectorCount"
    by (intro mult_nonneg_nonneg) simp_all
  from assms have "(i + 1) * sectorCount \<le> stackCount * sectorCount"
    by (intro mult_right_mono) simp_all
  then show "i * sectorCount + sectorCount \<le> stackCount * sectorCount"
    by (simp add: algebra_simps)
qed

lemma cell_bounds:
  assumes "0 \<le> i" "i < stackCount" "0 \<le> j" "j < sectorCount" "fits sectorCount stackCount"
  shows "0 \<le> i * (sectorCount + 1)"
    and "i * (sectorCount + 1) + j < (i + 1) * (sectorCount + 1) + j"
    and "((i + 1) * (sectorCount + 1) + j + 1) * 6 + 5 < 6 * (stackCount + 1) * (sectorCount + 1)"
    and "((i + 1) * (sectorCount + 1) + j + 1) * 6 + 5 \<le> INT_MAX"
    and "(i + 1) * (sectorCount + 1) \<le> INT_MAX"
    and "sectorCount + 1 \<le> INT_MAX"
    and "stackCount \<le> INT_MAX"
proof -
  define P where "P = i * sectorCount"
  define Q where "Q = stackCount * sectorCount"
  have ar: "0 \<le> P" "P + sectorCount \<le> Q"
    using cell_arith [OF assms(1-4)] by (simp_all only: P_def Q_def)
  have e1: "i * (sectorCount + 1) = P + i"
    and e3: "(i + 1) * (sectorCount + 1) = P + i + sectorCount + 1"
    and eF: "6 * (stackCount + 1) * (sectorCount + 1) =
      6 * Q + 6 * stackCount + 6 * sectorCount + 6"
    by (simp_all add: P_def Q_def algebra_simps)
  from assms(5) have F: "6 * Q + 6 * stackCount + 6 * sectorCount + 6 \<le> INT_MAX"
    unfolding fits_def eF .
  show "0 \<le> i * (sectorCount + 1)"
    using ar assms(1-4) unfolding e1 by simp
  show "i * (sectorCount + 1) + j < (i + 1) * (sectorCount + 1) + j"
    using ar assms(1-4) unfolding e1 e3 by simp
  show "((i + 1) * (sectorCount + 1) + j + 1) * 6 + 5 < 6 * (stackCount + 1) * (sectorCount + 1)"
    using ar assms(1-4) unfolding e3 eF by simp
  show "((i + 1) * (sectorCount + 1) + j + 1) * 6 + 5 \<le> INT_MAX"
    using ar assms(1-4) F unfolding e3 by simp
  show "(i + 1) * (sectorCount + 1) \<le> INT_MAX"
    using ar assms(1-4) F unfolding e3 by simp
  show "sectorCount + 1 \<le> INT_MAX"
    using ar assms(1-4) F by simp
  show "stackCount \<le> INT_MAX"
    using ar assms(1-4) F by simp
qed

lemma fits_counts:
  assumes "0 \<le> sectorCount" "0 \<le> stackCount" "fits sectorCount stackCount"
  shows "stackCount < INT_MAX" and "sectorCount < INT_MAX"
proof -
  define p where "p = (stackCount + 1) * (sectorCount + 1)"
  have "(stackCount + 1) * 1 \<le> p" unfolding p_def
    using assms(1,2) by (intro mult_left_mono) simp_all
  moreover have "1 * (sectorCount + 1) \<le> p" unfolding p_def
    using assms(1,2) by (intro mult_right_mono) simp_all
  moreover have "6 * p \<le> INT_MAX"
    using assms(3) unfolding fits_def p_def by (simp only: mult.assoc)
  ultimately show "stackCount < INT_MAX" and "sectorCount < INT_MAX"
    using assms(1,2) by simp_all
qed

lemma quad_eq:
  assumes i: "0 \<le> i" "i < stackCount" and j: "0 \<le> j" "j < sectorCount"
    and fits: "fits sectorCount stackCount"
    and rd: "\<And>n. n \<in> set (cell_reads sectorCount stackCount i j) \<Longrightarrow> rd n = Some (g n)"
  shows "quad rd sectorCount stackCount i j vs =
         Some (vs @ map g (cell_reads sectorCount stackCount i j))"
proof -
  define a where "a = i * (sectorCount + 1)"
  define k1 where "k1 = a + j"
  define k3 where "k3 = a + sectorCount + 1 + j"
  have e: "(i + 1) * (sectorCount + 1) = a + sectorCount + 1"
    by (simp add: a_def algebra_simps)
  note cb = cell_bounds [OF i j fits, unfolded e, folded a_def]
  have A: "0 \<le> a" "(k3 + 1) * 6 + 5 \<le> INT_MAX" "stackCount \<le> INT_MAX"
    using cb(1,4,7) by (simp_all add: k3_def)
  have w: "int_op (sectorCount + 1) = Some (sectorCount + 1)"
    using j A unfolding k3_def by (intro int_op_nonneg) simp_all
  have a: "int_op (i * (sectorCount + 1)) = Some a"
    unfolding a_def [symmetric] using j A unfolding k3_def by (intro int_op_nonneg) simp_all
  have ok1: "int_op (a + j) = Some k1"
    unfolding k1_def using j A unfolding k3_def by (intro int_op_nonneg) simp_all
  have ok2: "int_op (k1 + 1) = Some (k1 + 1)"
    unfolding k1_def using j A unfolding k3_def by (intro int_op_nonneg) simp_all
  have i1: "int_op (i + 1) = Some (i + 1)"
    using i A by (intro int_op_nonneg) simp_all
  have b: "int_op ((i + 1) * (sectorCount + 1)) = Some (a + sectorCount + 1)"
    unfolding e using j A unfolding k3_def by (intro int_op_nonneg) simp_all
  have ok3: "int_op (a + sectorCount + 1 + j) = Some k3"
    unfolding k3_def using j A unfolding k3_def by (intro int_op_nonneg) simp_all
  have ok4: "int_op (k3 + 1) = Some (k3 + 1)"
    using j A unfolding k3_def by (intro int_op_nonneg) simp_all
  have s: "int_op (stackCount - 1) = Some (stackCount - 1)"
    using i A by (intro int_op_nonneg) simp_all
  have cell: "spec_cell sectorCount stackCount i j =
      (if i = 0 then [] else [(k1, k1 + 1, k3)]) @
      (if i = stackCount - 1 then [] else [(k1 + 1, k3 + 1, k3)])"
    unfolding spec_cell_def Let_def e by (simp add: k1_def k3_def a_def)
  have bs: "0 \<le> k1" "k1 * 6 + 5 \<le> INT_MAX" "0 \<le> k1 + 1" "(k1 + 1) * 6 + 5 \<le> INT_MAX"
    "0 \<le> k3" "k3 * 6 + 5 \<le> INT_MAX" "0 \<le> k3 + 1"
    using j A unfolding k1_def k3_def by simp_all
  have t1: "triangle rd k1 (k1 + 1) k3 vs = Some (vs @ map g (triangle_reads (k1, k1 + 1, k3)))"
    if "i \<noteq> 0"
  proof (rule triangle_eq [OF bs(1-6)])
    fix n assume "n \<in> set (triangle_reads (k1, k1 + 1, k3))"
    with that show "rd n = Some (g n)"
      by (intro rd) (auto simp add: cell_reads_def cell)
  qed
  have t2: "triangle rd (k1 + 1) (k3 + 1) k3 vs' =
      Some (vs' @ map g (triangle_reads (k1 + 1, k3 + 1, k3)))"
    if "i \<noteq> stackCount - 1" for vs'
  proof (rule triangle_eq [OF bs(3,4,7) A(2) bs(5,6)])
    fix n assume "n \<in> set (triangle_reads (k1 + 1, k3 + 1, k3))"
    with that show "rd n = Some (g n)"
      by (intro rd) (auto simp add: cell_reads_def cell)
  qed
  have "quad rd sectorCount stackCount i j vs =
      (if i \<noteq> 0 then triangle rd k1 (k1 + 1) k3 vs else Some vs) \<bind>
      (\<lambda>v1. if i \<noteq> stackCount - 1 then triangle rd (k1 + 1) (k3 + 1) k3 v1 else Some v1)"
    unfolding quad_def by (simp only: w a ok1 ok2 i1 b ok3 ok4 s Option.bind.simps)
  also have "\<dots> = Some (vs @ map g (cell_reads sectorCount stackCount i j))"
    by (simp add: t1 t2 cell_reads_def cell del: triangle_reads.simps)
  finally show ?thesis .
qed

lemma tri_sectors_eq:
  "0 \<le> i \<Longrightarrow> i < stackCount \<Longrightarrow> 0 \<le> j \<Longrightarrow> fits sectorCount stackCount \<Longrightarrow>
   (\<And>n. n \<in> set (row_reads sectorCount stackCount i j) \<Longrightarrow> rd n = Some (g n)) \<Longrightarrow>
   tri_sectors rd sectorCount stackCount i j vs =
     Some (vs @ map g (row_reads sectorCount stackCount i j))"
proof (induction rd sectorCount stackCount i j vs rule: tri_sectors.induct)
  case (1 rd sectorCount stackCount i j vertices)
  show ?case
  proof (cases "j < sectorCount")
    case True
    then have rows: "row_reads sectorCount stackCount i j =
        cell_reads sectorCount stackCount i j @ row_reads sectorCount stackCount i (j + 1)"
      by (simp add: row_reads_def upto_rec1 [of j])
    define vs' where "vs' = vertices @ map g (cell_reads sectorCount stackCount i j)"
    have q: "quad rd sectorCount stackCount i j vertices = Some vs'"
      unfolding vs'_def using True "1.prems" by (intro quad_eq) (simp_all add: rows)
    have op: "int_op (j + 1) = Some (j + 1)"
      using True "1.prems"(3) cell_bounds(6) [OF "1.prems"(1-3) True "1.prems"(4)]
      by (intro int_op_nonneg) simp_all
    have "tri_sectors rd sectorCount stackCount i (j + 1) vs' =
          Some (vs' @ map g (row_reads sectorCount stackCount i (j + 1)))"
      using True "1.prems" by (intro "1.IH" [OF True q op]) (simp_all add: rows)
    with True q op show ?thesis
      by (subst tri_sectors.simps) (simp add: rows vs'_def)
  next
    case False
    then show ?thesis
      by (subst tri_sectors.simps) (simp add: row_reads_def)
  qed
qed

lemma tri_stacks_eq:
  "0 \<le> i \<Longrightarrow> fits sectorCount stackCount \<Longrightarrow> 0 \<le> sectorCount \<Longrightarrow>
   (\<And>n. n \<in> set (stack_reads sectorCount stackCount i) \<Longrightarrow> rd n = Some (g n)) \<Longrightarrow>
   tri_stacks rd sectorCount stackCount i vs =
     Some (vs @ map g (stack_reads sectorCount stackCount i))"
proof (induction rd sectorCount stackCount i vs rule: tri_stacks.induct)
  case (1 rd sectorCount stackCount i vertices)
  show ?case
  proof (cases "i < stackCount")
    case True
    then have st: "stack_reads sectorCount stackCount i =
        row_reads sectorCount stackCount i 0 @ stack_reads sectorCount stackCount (i + 1)"
      by (simp add: stack_reads_def upto_rec1 [of i])
    define vs' where "vs' = vertices @ map g (row_reads sectorCount stackCount i 0)"
    have r: "tri_sectors rd sectorCount stackCount i 0 vertices = Some vs'"
      unfolding vs'_def using True "1.prems" by (intro tri_sectors_eq) (simp_all add: st)
    have "stackCount < INT_MAX"
      using True "1.prems"(1,2,3) by (intro fits_counts(1) [of sectorCount]) simp_all
    with True "1.prems"(1) have op: "int_op (i + 1) = Some (i + 1)"
      by (intro int_op_nonneg) simp_all
    have "tri_stacks rd sectorCount stackCount (i + 1) vs' =
          Some (vs' @ map g (stack_reads sectorCount stackCount (i + 1)))"
      using True "1.prems" by (intro "1.IH" [OF True r op]) (simp_all add: st)
    with True r op show ?thesis
      by (subst tri_stacks.simps) (simp add: st vs'_def)
  next
    case False
    then show ?thesis
      by (subst tri_stacks.simps) (simp add: stack_reads_def)
  qed
qed

lemma copy_vertex_append:
  "copy_vertex rd kv k (v @ w) = map_option ((@) v) (copy_vertex rd kv k w)"
proof (induction rd kv k w rule: copy_vertex.induct)
  case (1 rd kv k w)
  show ?case
  proof (cases "k < 6")
    case True
    show ?thesis
      apply (subst (1 2) copy_vertex.simps)
      using True "1.IH" by (auto split: bind_splits)
  next
    case False
    then show ?thesis
      by (subst (1 2) copy_vertex.simps) simp
  qed
qed

lemma bind_map_option: "map_option f m \<bind> g = m \<bind> (\<lambda>x. g (f x))"
  by (cases m) simp_all

lemma map_option_bind: "map_option f (m \<bind> g) = m \<bind> (\<lambda>x. map_option f (g x))"
  by (cases m) simp_all

lemma triangle_append:
  "triangle rd ka kb kc (v @ w) = map_option ((@) v) (triangle rd ka kb kc w)"
  by (simp add: triangle_def copy_vertex_append bind_map_option map_option_bind)

lemma quad_append:
  "quad rd sectorCount stackCount i j (v @ w) =
   map_option ((@) v) (quad rd sectorCount stackCount i j w)"
  unfolding quad_def
  by (auto simp: triangle_append bind_map_option map_option_bind split: bind_splits)

lemma tri_sectors_append:
  "tri_sectors rd sectorCount stackCount i j (v @ w) =
   map_option ((@) v) (tri_sectors rd sectorCount stackCount i j w)"
proof (induction rd sectorCount stackCount i j w rule: tri_sectors.induct)
  case (1 rd sectorCount stackCount i j w)
  show ?case
    apply (subst (1 2) tri_sectors.simps)
    using "1.IH" by (auto simp: quad_append split: option.splits)
qed

lemma tri_stacks_append:
  "tri_stacks rd sectorCount stackCount i (v @ w) =
   map_option ((@) v) (tri_stacks rd sectorCount stackCount i w)"
proof (induction rd sectorCount stackCount i w rule: tri_stacks.induct)
  case (1 rd sectorCount stackCount i w)
  show ?case
    apply (subst (1 2) tri_stacks.simps)
    using "1.IH" by (auto simp: tri_sectors_append split: option.splits)
qed

lemma generateSphere_append:
  "generateSphere ops (v @ w) radius sectorCount stackCount =
   map_option ((@) v) (generateSphere ops w radius sectorCount stackCount)"
  by (simp add: generateSphere_def tri_stacks_append map_option_bind)

lemma set_vertex_reads: "n \<in> set (vertex_reads k) \<longleftrightarrow> k * 6 \<le> n \<and> n \<le> k * 6 + 5"
  by (simp add: vertex_reads_def)

lemma length_vertex_reads: "length (vertex_reads k) = 6"
  by (simp add: vertex_reads_def)

lemma set_cell_reads:
  "n \<in> set (cell_reads sectorCount stackCount i j) \<longleftrightarrow>
     (i \<noteq> 0 \<and> (n \<in> set (vertex_reads (i * (sectorCount + 1) + j)) \<or>
                n \<in> set (vertex_reads (i * (sectorCount + 1) + j + 1)) \<or>
                n \<in> set (vertex_reads ((i + 1) * (sectorCount + 1) + j)))) \<or>
     (i \<noteq> stackCount - 1 \<and> (n \<in> set (vertex_reads (i * (sectorCount + 1) + j + 1)) \<or>
                n \<in> set (vertex_reads ((i + 1) * (sectorCount + 1) + j + 1)) \<or>
                n \<in> set (vertex_reads ((i + 1) * (sectorCount + 1) + j))))"
  by (auto simp: cell_reads_def spec_cell_def Let_def)

lemma length_cell_reads:
  "length (cell_reads sectorCount stackCount i j) =
     (if i = 0 then 0 else 18) + (if i = stackCount - 1 then 0 else 18)"
  by (simp add: cell_reads_def spec_cell_def Let_def length_vertex_reads)

lemma set_stack_reads:
  "n \<in> set (stack_reads sectorCount stackCount 0) \<longleftrightarrow>
     (\<exists>i j. 0 \<le> i \<and> i < stackCount \<and> 0 \<le> j \<and> j < sectorCount \<and>
        n \<in> set (cell_reads sectorCount stackCount i j))"
  unfolding stack_reads_def row_reads_def by (simp add: Bex_def)

lemma cell_reads_in_grid:
  assumes "0 \<le> i" "i < stackCount" "0 \<le> j" "j < sectorCount"
    and "n \<in> set (cell_reads sectorCount stackCount i j)"
  shows "0 \<le> n" and "n \<le> 6 * (stackCount + 1) * (sectorCount + 1) - 1"
proof -
  define P where "P = i * sectorCount"
  define Q where "Q = stackCount * sectorCount"
  have ar: "0 \<le> P" "P + sectorCount \<le> Q"
    using cell_arith [OF assms(1-4)] by (simp_all only: P_def Q_def)
  have e1: "i * (sectorCount + 1) = P + i"
    and e3: "(i + 1) * (sectorCount + 1) = P + i + sectorCount + 1"
    and eF: "6 * (stackCount + 1) * (sectorCount + 1) =
      6 * Q + 6 * stackCount + 6 * sectorCount + 6"
    by (simp_all add: P_def Q_def algebra_simps)
  from assms(5) show "0 \<le> n"
    unfolding set_cell_reads set_vertex_reads e1 e3 using ar assms(1-4) by auto
  from assms(5) show "n \<le> 6 * (stackCount + 1) * (sectorCount + 1) - 1"
    unfolding set_cell_reads set_vertex_reads e1 e3 eF using ar assms(1-4) by auto
qed

lemma cell_reads_le_last:
  assumes "0 \<le> i" "i < stackCount" "0 \<le> j" "j < sectorCount"
    and "n \<in> set (cell_reads sectorCount stackCount i j)"
  shows "n \<le> (stackCount * (sectorCount + 1) + sectorCount - 1) * 6 + 5"
proof -
  define P where "P = i * sectorCount"
  define Q where "Q = stackCount * sectorCount"
  have ar: "0 \<le> P" "P + sectorCount \<le> Q"
    using cell_arith [OF assms(1-4)] by (simp_all only: P_def Q_def)
  have ar2: "P + 2 * sectorCount \<le> Q" if "i \<noteq> stackCount - 1"
  proof -
    from that assms have "(i + 2) * sectorCount \<le> stackCount * sectorCount"
      by (intro mult_right_mono) simp_all
    then show ?thesis by (simp add: P_def Q_def algebra_simps)
  qed
  have e1: "i * (sectorCount + 1) = P + i"
    and e3: "(i + 1) * (sectorCount + 1) = P + i + sectorCount + 1"
    and eL: "stackCount * (sectorCount + 1) = Q + stackCount"
    by (simp_all add: P_def Q_def algebra_simps)
  from assms(5) show ?thesis
    unfolding set_cell_reads set_vertex_reads e1 e3 eL using ar ar2 assms(1-4) by auto
qed

lemma last_read:
  assumes "2 \<le> stackCount" "1 \<le> sectorCount"
  shows "(stackCount * (sectorCount + 1) + sectorCount - 1) * 6 + 5
           \<in> set (stack_reads sectorCount stackCount 0)"
proof -
  have "(stackCount * (sectorCount + 1) + sectorCount - 1) * 6 + 5
          \<in> set (cell_reads sectorCount stackCount (stackCount - 1) (sectorCount - 1))"
    unfolding set_cell_reads set_vertex_reads using assms by simp
  with assms show ?thesis
    unfolding set_stack_reads
    by (intro exI [of _ "stackCount - 1"] exI [of _ "sectorCount - 1"]) simp
qed

lemma concat_map_concat:
  "concat (map f (concat xss)) = concat (map (\<lambda>xs. concat (map f xs)) xss)"
  by (induction xss) simp_all

lemma stack_reads_triangles:
  "stack_reads sectorCount stackCount 0 =
     concat (map triangle_reads (spec_triangles sectorCount stackCount))"
  by (simp add: stack_reads_def row_reads_def cell_reads_def [abs_def] spec_triangles_def
      concat_map_concat o_def)

lemma length_row_reads:
  "length (row_reads sectorCount stackCount i 0) =
     nat sectorCount * ((if i = 0 then 0 else 18) + (if i = stackCount - 1 then 0 else 18))"
  unfolding row_reads_def
  by (subst length_concat_const [where c = "(if i = 0 then 0 else 18) +
        (if i = stackCount - 1 then 0 else 18)"]) (simp_all add: length_cell_reads)

lemma length_stack_reads:
  assumes "2 \<le> stackCount" "0 \<le> sectorCount"
  shows "int (length (stack_reads sectorCount stackCount 0)) = 36 * sectorCount * (stackCount - 1)"
proof -
  have split: "[0..stackCount - 1] = 0 # [1..stackCount - 2] @ [stackCount - 1]"
    using assms(1) upto_rec1 [of 0 "stackCount - 1"] upto_rec2 [of 1 "stackCount - 1"]
    by simp
  have mid: "length (concat (map (\<lambda>i. row_reads sectorCount stackCount i 0)
      [1..stackCount - 2])) = length [1..stackCount - 2] * (nat sectorCount * 36)"
    by (rule length_concat_const) (simp add: length_row_reads)
  have "length (stack_reads sectorCount stackCount 0) =
      nat sectorCount * 18 + nat (stackCount - 2) * (nat sectorCount * 36) + nat sectorCount * 18"
    using assms(1) unfolding stack_reads_def split
    by (simp add: mid length_row_reads)
  also have "int \<dots> = 36 * sectorCount * (stackCount - 1)"
    using assms by (simp add: algebra_simps)
  finally show ?thesis .
qed

lemma read_indices_eq:
  assumes "0 \<le> sectorCount" "0 \<le> stackCount" "fits sectorCount stackCount"
  shows "read_indices sectorCount stackCount = Some (stack_reads sectorCount stackCount 0)"
  using tri_stacks_eq [of 0 sectorCount stackCount Some "\<lambda>n. n" "[]"] assms
  by (simp add: read_indices_def)

lemma generateSphere_eq:
  assumes "0 \<le> sectorCount" "0 \<le> stackCount" "fits sectorCount stackCount"
  shows "\<exists>tv. tempVertices_of ops radius sectorCount stackCount = Some tv \<and>
    int (length tv) = 6 * (stackCount + 1) * (sectorCount + 1) \<and>
    generateSphere ops vertices radius sectorCount stackCount =
      Some (vertices @ map (\<lambda>n. tv ! nat n) (stack_reads sectorCount stackCount 0))"
proof -
  note cnt = fits_counts [OF assms]
  obtain tv where tv: "tempVertices_of ops radius sectorCount stackCount = Some tv"
    using cnt by (simp add: tempVertices_of_eq)
  have len: "int (length tv) = 6 * (stackCount + 1) * (sectorCount + 1)"
    using length_tempVertices [OF tv cnt(2,1)] assms(1,2) by simp
  have rd: "subscript tv n = Some (tv ! nat n)"
    if "n \<in> set (stack_reads sectorCount stackCount 0)" for n
  proof -
    from that obtain i j where ij: "0 \<le> i" "i < stackCount" "0 \<le> j" "j < sectorCount"
      and n: "n \<in> set (cell_reads sectorCount stackCount i j)"
      unfolding set_stack_reads by blast
    from cell_reads_in_grid [OF ij n] len show ?thesis
      by (simp add: subscript_def)
  qed
  have "tri_stacks (subscript tv) sectorCount stackCount 0 vertices =
      Some (vertices @ map (\<lambda>n. tv ! nat n) (stack_reads sectorCount stackCount 0))"
    using assms rd by (intro tri_stacks_eq) simp_all
  with tv len show ?thesis
    by (simp add: generateSphere_def)
qed

lemma map_nth_upto:
  assumes "0 \<le> a" "b < int (length xs)"
  shows "map (\<lambda>n. xs ! nat n) [a..b] = take (nat (b - a + 1)) (drop (nat a) xs)"
proof (rule nth_equalityI)
  show "length (map (\<lambda>n. xs ! nat n) [a..b]) = length (take (nat (b - a + 1)) (drop (nat a) xs))"
    using assms by simp
next
  fix i assume "i < length (map (\<lambda>n. xs ! nat n) [a..b])"
  then have i: "a + int i \<le> b" by simp
  then have "[a..b] ! i = a + int i" by (rule nth_upto)
  with assms i show "map (\<lambda>n. xs ! nat n) [a..b] ! i = take (nat (b - a + 1)) (drop (nat a) xs) ! i"
    by (simp add: nat_add_distrib)
qed

lemma map_vertex_reads:
  assumes "0 \<le> k" "k * 6 + 5 < int (length tv)"
  shows "map (\<lambda>n. tv ! nat n) (vertex_reads k) = grid_vertex tv k"
proof -
  have "nat (k * 6 + 5 - k * 6 + 1) = 6" "nat (k * 6) = 6 * nat k"
    using assms(1) by (simp_all add: nat_mult_distrib)
  with map_nth_upto [of "k * 6" "k * 6 + 5" tv] assms show ?thesis
    by (simp only: vertex_reads_def grid_vertex_def)
qed

lemma spec_cell_corners:
  assumes "0 \<le> i" "i < stackCount" "0 \<le> j" "j < sectorCount"
    and "(ka, kb, kc) \<in> set (spec_cell sectorCount stackCount i j)"
  shows "0 \<le> ka \<and> ka * 6 + 5 < 6 * (stackCount + 1) * (sectorCount + 1)"
    and "0 \<le> kb \<and> kb * 6 + 5 < 6 * (stackCount + 1) * (sectorCount + 1)"
    and "0 \<le> kc \<and> kc * 6 + 5 < 6 * (stackCount + 1) * (sectorCount + 1)"
proof -
  have *: "0 \<le> k \<and> k * 6 + 5 < 6 * (stackCount + 1) * (sectorCount + 1)"
    if "k * 6 \<in> set (cell_reads sectorCount stackCount i j)"
      and "k * 6 + 5 \<in> set (cell_reads sectorCount stackCount i j)" for k
    using cell_reads_in_grid(1) [OF assms(1-4) that(1)]
      cell_reads_in_grid(2) [OF assms(1-4) that(2)] by simp
  have "set (vertex_reads ka) \<union> set (vertex_reads kb) \<union> set (vertex_reads kc)
      \<subseteq> set (cell_reads sectorCount stackCount i j)"
    using assms(5) by (auto simp: cell_reads_def)
  then have m: "ka * 6 \<in> set (cell_reads sectorCount stackCount i j)"
    "ka * 6 + 5 \<in> set (cell_reads sectorCount stackCount i j)"
    "kb * 6 \<in> set (cell_reads sectorCount stackCount i j)"
    "kb * 6 + 5 \<in> set (cell_reads sectorCount stackCount i j)"
    "kc * 6 \<in> set (cell_reads sectorCount stackCount i j)"
    "kc * 6 + 5 \<in> set (cell_reads sectorCount stackCount i j)"
    by (auto simp: set_vertex_reads)
  show "0 \<le> ka \<and> ka * 6 + 5 < 6 * (stackCount + 1) * (sectorCount + 1)"
    by (rule * [OF m(1,2)])
  show "0 \<le> kb \<and> kb * 6 + 5 < 6 * (stackCount + 1) * (sectorCount + 1)"
    by (rule * [OF m(3,4)])
  show "0 \<le> kc \<and> kc * 6 + 5 < 6 * (stackCount + 1) * (sectorCount + 1)"
    by (rule * [OF m(5,6)])
qed

lemma map_stack_reads:
  assumes "int (length tv) = 6 * (stackCount + 1) * (sectorCount + 1)"
  shows "map (\<lambda>n. tv ! nat n) (stack_reads sectorCount stackCount 0) =
         concat (map (emit_triangle tv) (spec_triangles sectorCount stackCount))"
proof -
  have tri: "map (\<lambda>n. tv ! nat n) (triangle_reads t) = emit_triangle tv t"
    if "t \<in> set (spec_triangles sectorCount stackCount)" for t
  proof -
    obtain ka kb kc where t: "t = (ka, kb, kc)" by (cases t)
    from that obtain i j where ij: "0 \<le> i" "i < stackCount" "0 \<le> j" "j < sectorCount"
      and c: "t \<in> set (spec_cell sectorCount stackCount i j)"
      by (auto simp: spec_triangles_def)
    from spec_cell_corners [OF ij c [unfolded t]] show ?thesis
      by (simp add: t map_vertex_reads assms)
  qed
  show ?thesis
    unfolding stack_reads_triangles map_concat
    by (simp add: tri cong: map_cong)
qed

lemma spec_grid_rows:
  "spec_grid ops radius sectorCount stackCount =
     concat (map (stack_row ops radius sectorCount (sector_step ops sectorCount)
       (stack_step ops stackCount)) [0..stackCount])"
proof -
  have v: "spec_vertex ops radius sectorCount stackCount i =
      vertex ops radius (sector_step ops sectorCount)
        (fmul ops radius (cosf ops (stack_angle ops i (stack_step ops stackCount))))
        (fmul ops radius (sinf ops (stack_angle ops i (stack_step ops stackCount))))" for i
    by (rule ext) (simp add: spec_vertex_def vertex_def Let_def)
  have "stack_row ops radius sectorCount (sector_step ops sectorCount)
      (stack_step ops stackCount) =
    (\<lambda>i. concat (map (spec_vertex ops radius sectorCount stackCount i) [0..sectorCount]))"
    by (rule ext) (simp add: stack_row_def Let_def v)
  then show ?thesis
    by (simp add: spec_grid_def)
qed

lemma tempVertices_of_spec_grid:
  "sectorCount < INT_MAX \<Longrightarrow> stackCount < INT_MAX \<Longrightarrow>
   tempVertices_of ops radius sectorCount stackCount =
     Some (spec_grid ops radius sectorCount stackCount)"
  by (simp add: tempVertices_of_eq spec_grid_rows)


lemma length_spec_vertex: "length (spec_vertex ops radius sectorCount stackCount i j) = 6"
  by (simp add: spec_vertex_def Let_def)



text \<open>Each normal is computed from the position by three float divisions by the radius.\<close>

lemma spec_vertex_normal:
  "\<exists>x y z. spec_vertex ops radius sectorCount stackCount i j =
     [x, y, z, fdiv ops x radius, fdiv ops y radius, fdiv ops z radius]"
  by (simp add: spec_vertex_def Let_def)

lemma fitsI: "6 * (stackCount + 1) * (sectorCount + 1) \<le> INT_MAX \<Longrightarrow> fits sectorCount stackCount"
  by (simp add: fits_def)

lemma copy_vertex_overflow: "INT_MAX < kv * 6 \<Longrightarrow> copy_vertex rd kv 0 vs = None"
  by (subst copy_vertex.simps) (simp add: int_op_def)

lemma quad_overflow: "quad rd 357913940 2 0 0 vs = None"
proof -
  have "copy_vertex rd 357913942 0 v = None" for v
    by (rule copy_vertex_overflow) (simp add: INT_MAX_def)
  then show ?thesis
    by (simp add: quad_def int_op_def INT_MAX_def INT_MIN_def triangle_def)
qed

lemma tri_stacks_overflow: "tri_stacks rd 357913940 2 0 vs = None"
proof -
  have "tri_sectors rd 357913940 2 0 0 vs = None"
    by (subst tri_sectors.simps) (simp add: quad_overflow)
  then show ?thesis
    by (subst tri_stacks.simps) simp
qed

lemma generateSphere_overflow: "generateSphere ops vertices radius 357913940 2 = None"
  by (simp add: generateSphere_def tri_stacks_overflow)










lemma length_emitted_vertex: "length (emitted_vertex ops radius sectorCount stackCount p) = 6"
  by (cases p) (simp add: length_spec_vertex)



section \<open>Claims about the sphere generator\<close>

text \<open>
  The theorems of this section hold for every \<open>radius\<close> and every interpretation of the
  float operations, except where they name one. The witnesses take the float operations without rounding and the
  parameters that the programs pass: \<open>radius = 0.5\<close> with 24 sectors and 12 stacks
  (\<open>basic_lighting_specular.cpp\<close>) or 16 sectors and 8 stacks (the three-window program).
\<close>

text \<open>
  C1, as amended. For every \<open>radius\<close>, \<open>sectorCount \<ge> 3\<close> and \<open>stackCount \<ge> 2\<close> such that the
  size of the vertex grid in floats, \<open>6 (stackCount + 1) (sectorCount + 1)\<close>, is at most
  \<open>INT_MAX\<close>, \<open>generateSphere\<close> returns and has appended exactly
  \<open>6 sectorCount (stackCount - 1)\<close> vertices of six floats each to \<open>vertices\<close>.
\<close>

theorem generateSphere_vertex_count:
  assumes "3 \<le> sectorCount" and "2 \<le> stackCount"
    and "6 * (stackCount + 1) * (sectorCount + 1) \<le> INT_MAX"
  shows "\<exists>out. generateSphere ops vertices radius sectorCount stackCount = Some out \<and>
    int (length out) = int (length vertices) + 6 * (6 * sectorCount * (stackCount - 1))"
proof -
  from assms have "0 \<le> sectorCount" "0 \<le> stackCount" "fits sectorCount stackCount"
    by (simp_all add: fits_def)
  from generateSphere_eq [OF this, of ops radius vertices]
    length_stack_reads [of stackCount sectorCount] assms(1,2)
  show ?thesis by auto
qed

text \<open>The sphere of \<open>basic_lighting_specular.cpp\<close> has 1584 vertices.\<close>

theorem generateSphere_vertex_count_witness:
  "\<exists>out. generateSphere ideal_ops [] (1 / 2) 24 12 = Some out \<and> int (length out) = 6 * 1584"
  using generateSphere_vertex_count [of 24 12 ideal_ops "[]" "1 / 2"]
  by (simp add: INT_MAX_def)

text \<open>
  C1 as stated, for every \<open>sectorCount \<ge> 3\<close> and \<open>stackCount \<ge> 2\<close>, fails: with 357913940
  sectors and 2 stacks the first cell has \<open>k4 = 357913942\<close>, and \<open>k4 * 6\<close> is beyond \<open>INT_MAX\<close>.
\<close>

theorem generateSphere_vertex_count_counterexample:
  "(3::int) \<le> 357913940 \<and> (2::int) \<le> 2 \<and>
   generateSphere ideal_ops [] (1 / 2) 357913940 2 = None"
  by (simp add: generateSphere_overflow)

text \<open>
  C4, as amended. Whenever \<open>sectorCount \<ge> 1\<close>, \<open>stackCount \<ge> 1\<close> and the size of the vertex
  grid is at most \<open>INT_MAX\<close>, what \<open>generateSphere\<close> appends is, cell by cell with the stacks
  outside and the sectors inside, the triangle \<open>(k1, k2, k3)\<close> if and only if \<open>i \<noteq> 0\<close>, followed
  by the triangle \<open>(k2, k4, k3)\<close> if and only if \<open>i \<noteq> stackCount - 1\<close>: the triangles of
  \<open>spec_triangles\<close>, each as the three vertices that it names in the grid of the
  specification, which is what the first loop nest has built.
\<close>

theorem generateSphere_triangulation:
  assumes "1 \<le> sectorCount" and "1 \<le> stackCount"
    and "6 * (stackCount + 1) * (sectorCount + 1) \<le> INT_MAX"
  shows "tempVertices_of ops radius sectorCount stackCount =
      Some (spec_grid ops radius sectorCount stackCount) \<and>
    generateSphere ops vertices radius sectorCount stackCount =
      Some (vertices @
        concat (map (emit_triangle (spec_grid ops radius sectorCount stackCount))
          (spec_triangles sectorCount stackCount)))"
proof -
  from assms have *: "0 \<le> sectorCount" "0 \<le> stackCount" "fits sectorCount stackCount"
    by (simp_all add: fits_def)
  have tv: "tempVertices_of ops radius sectorCount stackCount =
      Some (spec_grid ops radius sectorCount stackCount)"
    using fits_counts [OF *] by (simp add: tempVertices_of_spec_grid)
  from generateSphere_eq [OF *, of ops radius vertices] tv
  have len: "int (length (spec_grid ops radius sectorCount stackCount)) =
      6 * (stackCount + 1) * (sectorCount + 1)"
    and gs: "generateSphere ops vertices radius sectorCount stackCount =
      Some (vertices @ map (\<lambda>n. spec_grid ops radius sectorCount stackCount ! nat n)
        (stack_reads sectorCount stackCount 0))"
    by simp_all
  from tv gs show ?thesis
    by (simp add: map_stack_reads [OF len])
qed

text \<open>Three sectors and two stacks: six triangles, one for each cell.\<close>

theorem generateSphere_triangulation_witness:
  "generateSphere ideal_ops [] (1 / 2) 3 2 =
     Some (concat (map (emit_triangle (spec_grid ideal_ops (1 / 2) 3 2))
       [(1, 5, 4), (2, 6, 5), (3, 7, 6), (4, 5, 8), (5, 6, 9), (6, 7, 10)]))"
proof -
  have "spec_triangles 3 2 = [(1, 5, 4), (2, 6, 5), (3, 7, 6), (4, 5, 8), (5, 6, 9), (6, 7, 10)]"
    by code_simp
  with generateSphere_triangulation [of 3 2 ideal_ops "1 / 2" "[]"] show ?thesis
    by (simp add: INT_MAX_def)
qed

text \<open>
  C4 as stated fails where the indices leave \<open>int\<close>: with 357913940 sectors and 2 stacks the
  cell \<open>(0, 0)\<close> has \<open>i \<noteq> stackCount - 1\<close>, the specification emits its triangle
  \<open>(k2, k4, k3)\<close>, and the body of the loop has no defined result.
\<close>

theorem generateSphere_triangulation_counterexample:
  "spec_cell 357913940 2 0 0 = [(1, 357913942, 357913941)] \<and>
   quad Some 357913940 2 0 0 [] = None \<and>
   generateSphere ideal_ops [] (1 / 2) 357913940 2 = None"
  by (simp add: generateSphere_overflow quad_overflow spec_cell_def)

text \<open>
  C7. \<open>generateSphere\<close> is deterministic: what a call generates depends on \<open>radius\<close>,
  \<open>sectorCount\<close> and \<open>stackCount\<close> only. The function reads no global variable, and the one
  piece of state that it is handed, the contents of \<open>vertices\<close> before the call, has no
  influence on the data appended, nor on whether the call has defined behaviour.
\<close>

theorem generateSphere_deterministic:
  "map_option (drop (length v1)) (generateSphere ops v1 radius sectorCount stackCount) =
   map_option (drop (length v2)) (generateSphere ops v2 radius sectorCount stackCount)"
proof -
  have "map_option (drop (length v)) (generateSphere ops v radius sectorCount stackCount) =
      generateSphere ops [] radius sectorCount stackCount" for v
    using generateSphere_append [of ops v "[]" radius sectorCount stackCount]
    by (simp add: option.map_comp o_def option.map_ident)
  then show ?thesis by simp
qed

text \<open>Two calls in a row with the same parameters append the same data twice.\<close>

theorem generateSphere_deterministic_witness:
  "\<exists>generated. generateSphere ideal_ops [] (1 / 2) 16 8 = Some generated \<and>
     generateSphere ideal_ops generated (1 / 2) 16 8 = Some (generated @ generated)"
proof -
  have "fits 16 8" by (simp add: fits_def INT_MAX_def)
  with generateSphere_eq [of 16 8 ideal_ops "1 / 2" "[]"]
  obtain g where g: "generateSphere ideal_ops [] (1 / 2) 16 8 = Some g"
    by auto
  with generateSphere_append [of ideal_ops g "[]" "1 / 2" 16 8]
  obtain out where out: "generateSphere ideal_ops g (1 / 2) 16 8 = Some out"
    and pre: "take (length g) out = g"
    by auto
  from generateSphere_deterministic [of "[]" ideal_ops "1 / 2" 16 8 g] g out
  have "drop (length g) out = g" by simp
  with pre have "out = g @ g"
    by (metis append_take_drop_id)
  with g out show ?thesis by simp
qed

text \<open>
  C9. \<open>generateSphere\<close> appends to \<open>vertices\<close> and never clears it: the contents after the call
  are the contents before it, unchanged, followed by the data that the call generates, which
  is what the same call appends to an empty vector.
\<close>

theorem generateSphere_appends:
  "generateSphere ops vertices radius sectorCount stackCount =
   map_option (\<lambda>generated. vertices @ generated)
     (generateSphere ops [] radius sectorCount stackCount)"
  using generateSphere_append [of ops vertices "[]" radius sectorCount stackCount] by simp

theorem generateSphere_appends_witness:
  "\<exists>generated. generateSphere ideal_ops [] (1 / 2) 16 8 = Some generated \<and>
     generateSphere ideal_ops [7, 8, 9] (1 / 2) 16 8 = Some ([7, 8, 9] @ generated)"
proof -
  have "fits 16 8" by (simp add: fits_def INT_MAX_def)
  with generateSphere_eq [of 16 8 ideal_ops "1 / 2" "[]"]
  obtain g where "generateSphere ideal_ops [] (1 / 2) 16 8 = Some g"
    by auto
  with generateSphere_appends [of ideal_ops "[7, 8, 9]" "1 / 2" 16 8] show ?thesis
    by simp
qed

text \<open>
  C10, as amended. For every \<open>sectorCount \<ge> 3\<close> and \<open>stackCount \<ge> 2\<close> such that the size of the
  vertex grid is at most \<open>INT_MAX\<close>: the grid holds \<open>6 (stackCount + 1) (sectorCount + 1)\<close>
  floats, no index computation overflows, and every index read during the triangulation is in
  bounds. The largest index read is \<open>k3 * 6 + 5\<close> at \<open>i = stackCount - 1\<close>,
  \<open>j = sectorCount - 1\<close>. The index \<open>k4 * 6 + 5\<close> of that cell is the last index of the grid; it
  is larger and is not read, because the last stack emits no second triangle.
\<close>

theorem triangulation_reads_in_bounds:
  assumes "3 \<le> sectorCount" and "2 \<le> stackCount"
    and "6 * (stackCount + 1) * (sectorCount + 1) \<le> INT_MAX"
  shows "\<exists>tempVertices reads.
    tempVertices_of ops radius sectorCount stackCount = Some tempVertices \<and>
    int (length tempVertices) = 6 * (stackCount + 1) * (sectorCount + 1) \<and>
    read_indices sectorCount stackCount = Some reads \<and>
    generateSphere ops vertices radius sectorCount stackCount =
      Some (vertices @ map (\<lambda>n. tempVertices ! nat n) reads) \<and>
    (\<forall>n \<in> set reads. 0 \<le> n \<and> n < int (length tempVertices)) \<and>
    (\<forall>n \<in> set reads. n \<le> (stackCount * (sectorCount + 1) + sectorCount - 1) * 6 + 5) \<and>
    (stackCount * (sectorCount + 1) + sectorCount - 1) * 6 + 5 \<in> set reads \<and>
    (stackCount * (sectorCount + 1) + sectorCount) * 6 + 5 = int (length tempVertices) - 1"
proof -
  from assms have *: "0 \<le> sectorCount" "0 \<le> stackCount" "fits sectorCount stackCount"
    by (simp_all add: fits_def)
  from generateSphere_eq [OF this, of ops radius vertices]
  obtain tv where tv: "tempVertices_of ops radius sectorCount stackCount = Some tv"
    and len: "int (length tv) = 6 * (stackCount + 1) * (sectorCount + 1)"
    and gs: "generateSphere ops vertices radius sectorCount stackCount =
      Some (vertices @ map (\<lambda>n. tv ! nat n) (stack_reads sectorCount stackCount 0))"
    by blast
  have inb: "0 \<le> n \<and> n < int (length tv)"
    and le: "n \<le> (stackCount * (sectorCount + 1) + sectorCount - 1) * 6 + 5"
    if "n \<in> set (stack_reads sectorCount stackCount 0)" for n
  proof -
    from that obtain i j where ij: "0 \<le> i" "i < stackCount" "0 \<le> j" "j < sectorCount"
      and n: "n \<in> set (cell_reads sectorCount stackCount i j)"
      unfolding set_stack_reads by blast
    from cell_reads_in_grid [OF ij n] len show "0 \<le> n \<and> n < int (length tv)"
      by simp
    from cell_reads_le_last [OF ij n]
    show "n \<le> (stackCount * (sectorCount + 1) + sectorCount - 1) * 6 + 5" .
  qed
  have last: "(stackCount * (sectorCount + 1) + sectorCount - 1) * 6 + 5
      \<in> set (stack_reads sectorCount stackCount 0)"
    using assms(1,2) by (intro last_read) simp_all
  have k4: "(stackCount * (sectorCount + 1) + sectorCount) * 6 + 5 = int (length tv) - 1"
    unfolding len by (simp add: algebra_simps)
  from tv len gs read_indices_eq [OF *] inb le last k4 show ?thesis
    by blast
qed

theorem triangulation_reads_in_bounds_witness:
  "\<exists>tempVertices reads.
    tempVertices_of ideal_ops (1 / 2) 24 12 = Some tempVertices \<and>
    int (length tempVertices) = 1950 \<and>
    read_indices 24 12 = Some reads \<and>
    generateSphere ideal_ops [] (1 / 2) 24 12 = Some (map (\<lambda>n. tempVertices ! nat n) reads) \<and>
    (\<forall>n \<in> set reads. 0 \<le> n \<and> n < 1950) \<and>
    (\<forall>n \<in> set reads. n \<le> 1943) \<and>
    1943 \<in> set reads"
  using triangulation_reads_in_bounds [of 24 12 ideal_ops "1 / 2" "[]"]
  by (auto simp: INT_MAX_def)

text \<open>
  C10 as stated fails twice. With 357913940 sectors and 2 stacks the index arithmetic of the
  first cell overflows, so that nothing bounds the index of the read that follows. And with 3
  sectors and 2 stacks, where the grid holds 72 floats, the largest index read is 65, which
  is \<open>k3 * 6 + 5\<close> of the last cell, and not 71, which is its \<open>k4 * 6 + 5\<close>.
\<close>

theorem triangulation_reads_in_bounds_counterexample:
  "read_indices 357913940 2 = None \<and>
   map_option (\<lambda>reads. (71 \<in> set reads, Max (set reads))) (read_indices 3 2) = Some (False, 65)"
proof -
  have "read_indices 3 2 = Some
      [6, 7, 8, 9, 10, 11, 30, 31, 32, 33, 34, 35, 24, 25, 26, 27, 28, 29,
       12, 13, 14, 15, 16, 17, 36, 37, 38, 39, 40, 41, 30, 31, 32, 33, 34, 35,
       18, 19, 20, 21, 22, 23, 42, 43, 44, 45, 46, 47, 36, 37, 38, 39, 40, 41,
       24, 25, 26, 27, 28, 29, 30, 31, 32, 33, 34, 35, 48, 49, 50, 51, 52, 53,
       30, 31, 32, 33, 34, 35, 36, 37, 38, 39, 40, 41, 54, 55, 56, 57, 58, 59,
       36, 37, 38, 39, 40, 41, 42, 43, 44, 45, 46, 47, 60, 61, 62, 63, 64, 65]"
    by code_simp
  then show ?thesis
    by (simp add: read_indices_def tri_stacks_overflow)
qed




section \<open>Properties of the frame driver\<close>

lemma render_windows_unroll:
  "render_windows ops env count 0 s =
     window_step ops env count 2 (window_step ops env count 1 (window_step ops env count 0 s))"
proof -
  have 3: "render_windows ops env count (Suc (Suc (Suc 0))) t = t" for t
    by (subst render_windows.simps) simp
  have 2: "render_windows ops env count (Suc (Suc 0)) t = window_step ops env count 2 t" for t
    by (subst render_windows.simps) (simp add: 3 window_step_def numeral_2_eq_2)
  have 1: "render_windows ops env count (Suc 0) t =
      window_step ops env count 2 (window_step ops env count 1 t)" for t
    by (subst render_windows.simps) (simp add: 2 window_step_def)
  show ?thesis
    by (subst render_windows.simps) (simp add: 1 window_step_def)
qed

lemma lightPos_uniforms_append:
  "lightPos_uniforms (xs @ ys) = lightPos_uniforms xs @ lightPos_uniforms ys"
  by (induction xs rule: lightPos_uniforms.induct) simp_all

lemma window_step_lightPos: "lightPos (window_step ops env count i s) = lightPos s"
  by (simp add: window_step_def render_window_def processInput_def Let_def)

lemma window_step_should_close:
  "should_close (window_step ops env count i s) j \<longleftrightarrow>
     should_close s j \<or> (j = i \<and> escape_pressed env i)"
  by (auto simp: window_step_def render_window_def processInput_def Let_def)

lemma window_step_uniforms:
  "lightPos_uniforms (gl_calls (window_step ops env count i s)) =
     lightPos_uniforms (gl_calls s) @ (if should_close s i then [] else [(i, lightPos s)])"
  by (simp add: window_step_def render_window_def processInput_def Let_def
      lightPos_uniforms_append)


lemma drawn_windows_append:
  "drawn_windows (xs @ ys) = drawn_windows xs @ drawn_windows ys"
  by (induction xs rule: drawn_windows.induct) simp_all

lemma window_step_drawn:
  "drawn_windows (gl_calls (window_step ops env count i s)) =
     drawn_windows (gl_calls s) @ (if should_close s i then [] else [i])"
  by (simp add: window_step_def render_window_def processInput_def Let_def drawn_windows_append)

lemma update_light_frame:
  "should_close (update_light ops env s) = should_close s"
  "gl_calls (update_light ops env s) = gl_calls s"
  by (simp_all add: update_light_def Let_def)

text \<open>A pass draws the windows whose close flag is not set when the pass begins.\<close>

lemma tick_draws_live:
  "drawn_windows (gl_calls (tick ops env count s)) =
     drawn_windows (gl_calls s) @ filter (\<lambda>i. \<not> should_close s i) [0, 1, 2]"
  unfolding tick_def render_windows_unroll
  by (simp add: poll_events_def drawn_windows_append window_step_drawn window_step_should_close
      update_light_frame)

text \<open>
  Inside the loop the skip is never taken: the condition of the \<open>while\<close> has found all three
  flags unset, so that every pass draws all three windows.
\<close>

lemma tick_draws_all:
  assumes "loop_condition s"
  shows "drawn_windows (gl_calls (tick ops env count s)) = drawn_windows (gl_calls s) @ [0, 1, 2]"
  using assms by (simp add: tick_draws_live loop_condition_def)

text \<open>The loop is left only with a close flag set, and after the first pass that sets one.\<close>

lemma render_loop_exit:
  "render_loop ops count s envs = Some s' \<Longrightarrow>
     should_close s' 0 \<or> should_close s' 1 \<or> should_close s' 2"
  by (induction envs arbitrary: s) (auto simp: loop_condition_def split: if_splits)

lemma render_loop_leaves:
  assumes "loop_condition s" "\<not> loop_condition (tick ops env count s)"
  shows "render_loop ops count s (env # rest) = Some (tick ops env count s)"
  using assms by (cases rest) simp_all

text \<open>
  The light position after the update, and the sine and cosine as contractions: the distance
  of the light from \<open>(2, 0)\<close> is bounded by the distance of the clock from \<open>\<pi>/2\<close> and the error
  of the two functions.
\<close>

lemma sin_lipschitz: "\<bar>sin w - sin z\<bar> \<le> \<bar>w - z\<bar>" for w z :: real
proof -
  have "\<bar>sin w - sin z\<bar> = 2 * \<bar>sin ((w - z) / 2)\<bar> * \<bar>cos ((w + z) / 2)\<bar>"
    by (simp add: sin_diff_sin abs_mult)
  also have "\<dots> \<le> 2 * \<bar>(w - z) / 2\<bar> * 1"
    by (intro mult_mono mult_left_mono abs_sin_x_le_abs_x abs_cos_le_one) simp_all
  finally show ?thesis by simp
qed

lemma cos_lipschitz: "\<bar>cos w - cos z\<bar> \<le> \<bar>w - z\<bar>" for w z :: real
proof -
  have "\<bar>cos w - cos z\<bar> = 2 * \<bar>sin ((w + z) / 2)\<bar> * \<bar>sin ((z - w) / 2)\<bar>"
    by (simp add: cos_diff_cos abs_mult)
  also have "\<dots> \<le> 2 * 1 * \<bar>(z - w) / 2\<bar>"
    by (intro mult_mono mult_left_mono abs_sin_x_le_abs_x abs_sin_le_one) simp_all
  finally show ?thesis by simp
qed

lemma update_light_lightPos:
  "lightPos (update_light ops env s) =
     \<lparr>vx = fadd ops (flit ops 0)
             (fmul ops (fsin ops (fmul ops (light_time env) (flit ops 1))) (flit ops 2)),
      vy = fadd ops (flit ops 0)
             (fmul ops (fcos ops (fmul ops (light_time env) (flit ops 1))) (flit ops 2)),
      vz = vz (lightPos s)\<rparr>"
  by (simp add: update_light_def Let_def)

lemma tick_lightPos_z: "vz (lightPos (tick ops env count s)) = vz (lightPos s)"
  unfolding tick_def render_windows_unroll
  by (simp add: poll_events_def window_step_lightPos update_light_lightPos)

lemma light_near_quarter_turn:
  fixes ops :: "real float_ops" and eps :: real
  assumes lit: "flit ops 0 = 0" "flit ops 1 = 1" "flit ops 2 = 2"
    and one: "\<forall>a. fmul ops a 1 = a" and two: "\<forall>a. fmul ops a 2 = a * 2"
    and add: "\<forall>a. fadd ops 0 a = a"
    and sin: "\<forall>a. \<bar>fsin ops a - sin a\<bar> \<le> eps" and cos: "\<forall>a. \<bar>fcos ops a - cos a\<bar> \<le> eps"
    and t: "\<bar>light_time env - pi / 2\<bar> \<le> eps"
  shows "\<bar>vx (lightPos (update_light ops env s)) - 2\<bar> \<le> 4 * eps"
    and "\<bar>vy (lightPos (update_light ops env s)) - 0\<bar> \<le> 4 * eps"
proof -
  define a where "a = light_time env"
  have x: "vx (lightPos (update_light ops env s)) = fsin ops a * 2"
    and y: "vy (lightPos (update_light ops env s)) = fcos ops a * 2"
    using one two add by (simp_all add: update_light_lightPos lit a_def)
  have s1: "\<bar>sin a - 1\<bar> \<le> eps"
    using sin_lipschitz [of a "pi / 2"] t by (simp add: a_def)
  have c1: "\<bar>cos a\<bar> \<le> eps"
    using cos_lipschitz [of a "pi / 2"] t by (simp add: a_def)
  from sin have s2: "\<bar>fsin ops a - sin a\<bar> \<le> eps" by blast
  from cos have c2: "\<bar>fcos ops a - cos a\<bar> \<le> eps" by blast
  from s1 s2 show "\<bar>vx (lightPos (update_light ops env s)) - 2\<bar> \<le> 4 * eps"
    unfolding x by linarith
  from c1 c2 show "\<bar>vy (lightPos (update_light ops env s)) - 0\<bar> \<le> 4 * eps"
    unfolding y by linarith
qed

section \<open>Claims about the frame driver and the shutdown\<close>

text \<open>
  C3. Within one pass of the render loop of the three-window program the light position is
  computed once, before the loop over the windows, and every window that is rendered in the
  pass receives that one value as its \<open>lightPos\<close> uniform: the \<open>lightPos\<close> uniforms that a pass
  sets are one for each window whose close flag is not set, in the order of the windows, all
  with the value that \<open>update_light\<close> has computed, which is still the value of the global
  when the pass ends.
\<close>

theorem tick_shares_lightPos:
  "lightPos (tick ops env count s) = lightPos (update_light ops env s) \<and>
   lightPos_uniforms (gl_calls (tick ops env count s)) =
     lightPos_uniforms (gl_calls s) @
     map (\<lambda>i. (i, lightPos (update_light ops env s)))
       (filter (\<lambda>i. \<not> should_close s i) [0, 1, 2])"
  unfolding tick_def render_windows_unroll
  by (simp add: poll_events_def lightPos_uniforms_append window_step_lightPos
      window_step_uniforms window_step_should_close update_light_frame)

text \<open>The first pass, with the clock at 0: each of the three windows receives \<open>(0, 2, 3.5)\<close>.\<close>

theorem tick_shares_lightPos_witness:
  "lightPos_uniforms (gl_calls (tick ideal_ops escape_in_first 672 (init_driver ideal_ops))) =
     [(0, \<lparr>vx = 0, vy = 2, vz = 7 / 2\<rparr>), (1, \<lparr>vx = 0, vy = 2, vz = 7 / 2\<rparr>),
      (2, \<lparr>vx = 0, vy = 2, vz = 7 / 2\<rparr>)]"
  using tick_shares_lightPos [of ideal_ops escape_in_first 672 "init_driver ideal_ops"]
  by (simp add: init_driver_def update_light_def escape_in_first_def ideal_ops_def Let_def
      of_rat_divide)

text \<open>
  C2 says that the render loop of the three-window program ends only when every window has
  requested close, and that a window that has requested close stops rendering while the others
  go on. The loop over the windows has the skip that this asks for, at lines 326 to 329, but
  the condition of the \<open>while\<close> joins the three tests with \<open>&&\<close>: the loop is left as soon as
  one flag is set, and inside it the skip is never taken (lemma \<open>tick_draws_all\<close>). ESCAPE is
  down in window 0 during the first pass and nothing else happens: the loop is left after that
  pass, in which all three windows were drawn, and windows 1 and 2 have not requested close.
\<close>

theorem render_loop_exits_on_first_close:
  "map_option (\<lambda>s. (map (should_close s) [0, 1, 2], drawn_windows (gl_calls s)))
     (render_loop ideal_ops 672 (init_driver ideal_ops) [escape_in_first]) =
   Some ([True, False, False], [0, 1, 2])"
  by (simp add: loop_condition_def init_driver_def tick_def render_windows_unroll
      window_step_def render_window_def processInput_def poll_events_def update_light_def
      escape_in_first_def Let_def)

text \<open>
  C6. The light position follows the orbit \<open>C + (R sin(\<omega> t), R cos(\<omega> t), 0)\<close> with
  \<open>C = (0, 0, 3.5)\<close>, \<open>R = 2\<close> and \<open>\<omega> = 1\<close>: for every interpretation of the float operations the
  update sets \<open>x\<close> to \<open>0 + sin(t * 1) * 2\<close> and \<open>y\<close> to \<open>0 + cos(t * 1) * 2\<close>, in float arithmetic,
  and leaves \<open>z\<close>, which is initialised to 3.5 and which a pass of the loop does not change.
  With the floats read as the reals that they are: when the clock reads 0, the literals are
  exact and \<open>0 * 1 = 0\<close>, \<open>sin 0 = 0\<close>, \<open>cos 0 = 1\<close>, \<open>0 * 2 = 0\<close>, \<open>1 * 2 = 2\<close>, \<open>0 + 0 = 0\<close> and
  \<open>0 + 2 = 2\<close> hold of the float operations, the light is at \<open>(0, 2, 3.5)\<close>; when the clock is
  within \<open>\<epsilon>\<close> of \<open>\<pi>/2\<close>, multiplying by 1 or 2 and adding to 0 are exact and the float sine and
  cosine are within \<open>\<epsilon>\<close> of the sine and cosine, the light is within \<open>4 \<epsilon>\<close> of \<open>(2, 0)\<close> in both
  coordinates, at \<open>z = 3.5\<close>.
\<close>

theorem light_orbit:
  fixes ops :: "real float_ops" and eps :: real
  shows
   "lightPos (update_light ops env s) =
      \<lparr>vx = fadd ops (flit ops 0)
              (fmul ops (fsin ops (fmul ops (light_time env) (flit ops 1))) (flit ops 2)),
       vy = fadd ops (flit ops 0)
              (fmul ops (fcos ops (fmul ops (light_time env) (flit ops 1))) (flit ops 2)),
       vz = vz (lightPos s)\<rparr> \<and>
    vz (lightPos (init_driver ops)) = flit ops (7 / 2) \<and>
    vz (lightPos (tick ops env count s)) = vz (lightPos s) \<and>
    (flit ops 0 = 0 \<and> flit ops 1 = 1 \<and> flit ops 2 = 2 \<and>
     fmul ops 0 1 = 0 \<and> fsin ops 0 = 0 \<and> fcos ops 0 = 1 \<and> fmul ops 0 2 = 0 \<and>
     fmul ops 1 2 = 2 \<and> fadd ops 0 0 = 0 \<and> fadd ops 0 2 = 2 \<and>
     light_time env = 0 \<and> vz (lightPos s) = 7 / 2 \<longrightarrow>
       lightPos (update_light ops env s) = \<lparr>vx = 0, vy = 2, vz = 7 / 2\<rparr>) \<and>
    (flit ops 0 = 0 \<and> flit ops 1 = 1 \<and> flit ops 2 = 2 \<and>
     (\<forall>a. fmul ops a 1 = a) \<and> (\<forall>a. fmul ops a 2 = a * 2) \<and> (\<forall>a. fadd ops 0 a = a) \<and>
     (\<forall>a. \<bar>fsin ops a - sin a\<bar> \<le> eps) \<and> (\<forall>a. \<bar>fcos ops a - cos a\<bar> \<le> eps) \<and>
     \<bar>light_time env - pi / 2\<bar> \<le> eps \<and> vz (lightPos s) = 7 / 2 \<longrightarrow>
       \<bar>vx (lightPos (update_light ops env s)) - 2\<bar> \<le> 4 * eps \<and>
       \<bar>vy (lightPos (update_light ops env s)) - 0\<bar> \<le> 4 * eps \<and>
       vz (lightPos (update_light ops env s)) = 7 / 2)"
proof (intro conjI impI)
  show "lightPos (update_light ops env s) =
      \<lparr>vx = fadd ops (flit ops 0)
              (fmul ops (fsin ops (fmul ops (light_time env) (flit ops 1))) (flit ops 2)),
       vy = fadd ops (flit ops 0)
              (fmul ops (fcos ops (fmul ops (light_time env) (flit ops 1))) (flit ops 2)),
       vz = vz (lightPos s)\<rparr>"
    by (rule update_light_lightPos)
  show "vz (lightPos (init_driver ops)) = flit ops (7 / 2)"
    by (simp add: init_driver_def)
  show "vz (lightPos (tick ops env count s)) = vz (lightPos s)"
    by (rule tick_lightPos_z)
next
  assume "flit ops 0 = 0 \<and> flit ops 1 = 1 \<and> flit ops 2 = 2 \<and>
     fmul ops 0 1 = 0 \<and> fsin ops 0 = 0 \<and> fcos ops 0 = 1 \<and> fmul ops 0 2 = 0 \<and>
     fmul ops 1 2 = 2 \<and> fadd ops 0 0 = 0 \<and> fadd ops 0 2 = 2 \<and>
     light_time env = 0 \<and> vz (lightPos s) = 7 / 2"
  then show "lightPos (update_light ops env s) = \<lparr>vx = 0, vy = 2, vz = 7 / 2\<rparr>"
    by (simp add: update_light_lightPos)
next
  assume h: "flit ops 0 = 0 \<and> flit ops 1 = 1 \<and> flit ops 2 = 2 \<and>
     (\<forall>a. fmul ops a 1 = a) \<and> (\<forall>a. fmul ops a 2 = a * 2) \<and> (\<forall>a. fadd ops 0 a = a) \<and>
     (\<forall>a. \<bar>fsin ops a - sin a\<bar> \<le> eps) \<and> (\<forall>a. \<bar>fcos ops a - cos a\<bar> \<le> eps) \<and>
     \<bar>light_time env - pi / 2\<bar> \<le> eps \<and> vz (lightPos s) = 7 / 2"
  then show "\<bar>vx (lightPos (update_light ops env s)) - 2\<bar> \<le> 4 * eps"
    by (intro light_near_quarter_turn(1)) blast+
  from h show "\<bar>vy (lightPos (update_light ops env s)) - 0\<bar> \<le> 4 * eps"
    by (intro light_near_quarter_turn(2)) blast+
  from h show "vz (lightPos (update_light ops env s)) = 7 / 2"
    by (simp add: update_light_lightPos)
qed

text \<open>
  Without rounding the hypotheses hold, with \<open>\<epsilon> = 2^-24\<close>: the light is at \<open>(0, 2, 3.5)\<close> when the
  clock reads 0 and within \<open>2^-22\<close> of \<open>(2, 0, 3.5)\<close> when it reads \<open>\<pi>/2\<close>.
\<close>

theorem light_orbit_witness:
  "flit ideal_ops 0 = 0 \<and> flit ideal_ops 1 = 1 \<and> flit ideal_ops 2 = 2 \<and>
   fmul ideal_ops 0 1 = 0 \<and> fsin ideal_ops 0 = 0 \<and> fcos ideal_ops 0 = 1 \<and>
   fmul ideal_ops 0 2 = 0 \<and> fmul ideal_ops 1 2 = 2 \<and> fadd ideal_ops 0 0 = 0 \<and>
   fadd ideal_ops 0 2 = 2 \<and>
   light_time escape_in_first = 0 \<and> vz (lightPos (init_driver ideal_ops)) = 7 / 2 \<and>
   lightPos (update_light ideal_ops escape_in_first (init_driver ideal_ops)) =
     \<lparr>vx = 0, vy = 2, vz = 7 / 2\<rparr> \<and>
   (\<forall>a. fmul ideal_ops a 1 = a) \<and> (\<forall>a. fmul ideal_ops a 2 = a * 2) \<and>
   (\<forall>a. fadd ideal_ops 0 a = a) \<and>
   (\<forall>a. \<bar>fsin ideal_ops a - sin a\<bar> \<le> 1 / 2 ^ 24) \<and>
   (\<forall>a. \<bar>fcos ideal_ops a - cos a\<bar> \<le> 1 / 2 ^ 24) \<and>
   \<bar>light_time quarter_turn - pi / 2\<bar> \<le> 1 / 2 ^ 24 \<and>
   \<bar>vx (lightPos (update_light ideal_ops quarter_turn (init_driver ideal_ops))) - 2\<bar>
     \<le> 4 * (1 / 2 ^ 24) \<and>
   \<bar>vy (lightPos (update_light ideal_ops quarter_turn (init_driver ideal_ops))) - 0\<bar>
     \<le> 4 * (1 / 2 ^ 24) \<and>
   vz (lightPos (update_light ideal_ops quarter_turn (init_driver ideal_ops))) = 7 / 2"
proof -
  have lit: "flit ideal_ops 0 = 0" "flit ideal_ops 1 = 1" "flit ideal_ops 2 = 2"
    and z: "vz (lightPos (init_driver ideal_ops)) = 7 / 2"
    by (simp_all add: ideal_ops_def init_driver_def of_rat_divide)
  have id: "fmul ideal_ops 0 1 = 0" "fsin ideal_ops 0 = 0" "fcos ideal_ops 0 = 1"
    "fmul ideal_ops 0 2 = 0" "fmul ideal_ops 1 2 = 2" "fadd ideal_ops 0 0 = 0"
    "fadd ideal_ops 0 2 = 2"
    by (simp_all add: ideal_ops_def)
  have ex: "\<forall>a. fmul ideal_ops a 1 = a" "\<forall>a. fmul ideal_ops a 2 = a * 2"
    "\<forall>a. fadd ideal_ops 0 a = a"
    "\<forall>a. \<bar>fsin ideal_ops a - sin a\<bar> \<le> 1 / 2 ^ 24"
    "\<forall>a. \<bar>fcos ideal_ops a - cos a\<bar> \<le> 1 / 2 ^ 24"
    by (simp_all add: ideal_ops_def)
  have t: "light_time escape_in_first = 0" "\<bar>light_time quarter_turn - pi / 2\<bar> \<le> 1 / 2 ^ 24"
    by (simp_all add: escape_in_first_def quarter_turn_def)
  from light_orbit [of ideal_ops escape_in_first "init_driver ideal_ops" 672 "1 / 2 ^ 24"]
    lit z id t(1)
  have a: "lightPos (update_light ideal_ops escape_in_first (init_driver ideal_ops)) =
     \<lparr>vx = 0, vy = 2, vz = 7 / 2\<rparr>"
    by blast
  from light_orbit [of ideal_ops quarter_turn "init_driver ideal_ops" 672 "1 / 2 ^ 24"]
    lit z ex t(2)
  have b: "\<bar>vx (lightPos (update_light ideal_ops quarter_turn (init_driver ideal_ops))) - 2\<bar>
     \<le> 4 * (1 / 2 ^ 24) \<and>
   \<bar>vy (lightPos (update_light ideal_ops quarter_turn (init_driver ideal_ops))) - 0\<bar>
     \<le> 4 * (1 / 2 ^ 24) \<and>
   vz (lightPos (update_light ideal_ops quarter_turn (init_driver ideal_ops))) = 7 / 2"
    by blast
  from lit z id ex t a b show ?thesis
    by blast
qed

text \<open>
  The two exits of \<open>main\<close> of \<open>basic_lighting_specular.cpp\<close> that release what was acquired:
  the failure to create the window, and the end of the render loop.
\<close>

lemma main_window_failure:
  "main ops \<lparr>window_created = False, glad_loaded = g\<rparr> frames =
     Some ([GlfwInit, GlfwCreateWindow, GlfwTerminate], - 1)"
  by (simp add: main_def)

lemma main_normal_exit:
  assumes "frames_rendered frames = Some n"
  shows "\<exists>calls. main ops \<lparr>window_created = True, glad_loaded = True\<rparr> frames =
      Some (calls @ [GlDeleteVertexArrays SphereVAO, GlDeleteVertexArrays LightCubeVAO,
        GlDeleteBuffers VBO, GlDeleteBuffers LightVBO, GlfwTerminate], 0)"
proof -
  have "fits 24 12" by (simp add: fits_def INT_MAX_def)
  with generateSphere_eq [of 24 12 ops "flit ops (1 / 2)" "[]"]
  obtain sv where "generateSphere ops [] (flit ops (1 / 2)) 24 12 = Some sv"
    by auto
  with assms show ?thesis
    by (simp add: main_def)
qed

text \<open>
  C8 says that the explicit teardown happens on every exit path. When the window is created
  and \<open>gladLoadGLLoader\<close> fails, \<open>main\<close> returns \<open>-1\<close> at once: \<open>glfwTerminate\<close> is not called,
  although the exit before it, for a window that could not be created, calls it.
\<close>

theorem main_glad_failure_skips_teardown:
  "main ideal_ops \<lparr>window_created = True, glad_loaded = False\<rparr> [] =
     Some ([GlfwInit, GlfwCreateWindow, GladLoadGLLoader], - 1)"
  by (simp add: main_def)

end
